theory Spec2Isabelle
  imports Complex_Main "HOL-Library.Word"
begin

unbundle bit_operations_syntax

section \<open>The LOD traversal of csp-lod-bodies\<close>

text \<open>
  A shallow embedding of \<^verbatim>\<open>LODVisitor.cpp\<close>, \<^verbatim>\<open>TileRenderer.cpp\<close> and
  \<^verbatim>\<open>VistaPlanet.cpp\<close>. C++ \<^verbatim>\<open>double\<close> and \<^verbatim>\<open>float\<close> values are read as real
  numbers and the culling tests in exact arithmetic. Where finite inputs take the code out
  of the reals the model follows the code: zero divided by zero and the arc cosine of a
  number outside \<open>[-1, 1]\<close> are NaN, and a comparison with NaN is false (the corner at
  the camera in the horizon test; the zero vector, the cosine below \<open>-1\<close> and the opening
  angle of zero in the refinement test). The refinement test, whose code guards against
  rounding, takes the arithmetic as a parameter and is read both in exact and in IEEE double
  arithmetic. Overflow and underflow are not part of the model.
  C++ \<^verbatim>\<open>int\<close> values (levels, frame counts, texture layers) are integers; the code only
  compares them and adds one to a level.
\<close>

subsection \<open>Vectors, boxes and the frustum\<close>

type_synonym dvec3 = "real \<times> real \<times> real"
type_synonym dvec4 = "real \<times> real \<times> real \<times> real"

fun dot :: "dvec3 \<Rightarrow> dvec3 \<Rightarrow> real" where
  "dot (a1, a2, a3) (b1, b2, b3) = a1 * b1 + a2 * b2 + a3 * b3"

fun vsub :: "dvec3 \<Rightarrow> dvec3 \<Rightarrow> dvec3" where
  "vsub (a1, a2, a3) (b1, b2, b3) = (a1 - b1, a2 - b2, a3 - b3)"

fun vadd :: "dvec3 \<Rightarrow> dvec3 \<Rightarrow> dvec3" where
  "vadd (a1, a2, a3) (b1, b2, b3) = (a1 + b1, a2 + b2, a3 + b3)"

fun vscale :: "real \<Rightarrow> dvec3 \<Rightarrow> dvec3" where
  "vscale s (a1, a2, a3) = (s * a1, s * a2, s * a3)"

fun vdiv :: "dvec3 \<Rightarrow> real \<Rightarrow> dvec3" where
  "vdiv (a1, a2, a3) s = (a1 / s, a2 / s, a3 / s)"

definition vlength :: "dvec3 \<Rightarrow> real" where
  "vlength a = sqrt (dot a a)"

text \<open>
  The unit vector in the direction of a vector other than zero, for the notions of the
  specification; \<open>glm_normalize\<close> below is \<^verbatim>\<open>glm::normalize\<close> of the code.
\<close>

definition normalize_vec :: "dvec3 \<Rightarrow> dvec3" where
  "normalize_vec a = vdiv a (vlength a)"

record BoundingBox =
  getMin :: dvec3
  getMax :: dvec3

text \<open>The eight corners, in the order both culling tests list them (\<^verbatim>\<open>tbPnts\<close>).\<close>

definition tbPnts :: "BoundingBox \<Rightarrow> dvec3 list" where
  "tbPnts tb =
     (case (getMin tb, getMax tb) of ((n0, n1, n2), (m0, m1, m2)) \<Rightarrow>
        [(n0, n1, n2), (m0, n1, n2), (m0, n1, m2), (n0, n1, m2),
         (n0, m1, n2), (m0, m1, n2), (m0, m1, m2), (n0, m1, m2)])"

text \<open>
  \<^verbatim>\<open>Frustum.hpp\<close> is not among the sources. The tests read its planes (each a
  \<^verbatim>\<open>dvec4\<close>: a normal and an offset) and its two opening angles, which are fields here.
\<close>

record Frustum =
  getPlanes :: "dvec4 list"
  getHorizontalFOV :: real
  getVerticalFOV :: real

text \<open>
  The inner loop of \<^verbatim>\<open>testInFrustum\<close>: \<^verbatim>\<open>outside\<close> starts true and the first corner
  with \<^verbatim>\<open>dot(normal, tbPnt) >= d\<close> clears it and leaves the loop.
\<close>

fun cornersOutside :: "dvec3 \<Rightarrow> real \<Rightarrow> dvec3 list \<Rightarrow> bool" where
  "cornersOutside normal d [] = True"
| "cornersOutside normal d (tbPnt # rest) =
     (if dot normal tbPnt \<ge> d then False else cornersOutside normal d rest)"

text \<open>The loop over the planes: the first plane with \<^verbatim>\<open>outside\<close> ends it with false.\<close>

fun planesLoop :: "dvec4 list \<Rightarrow> dvec3 list \<Rightarrow> bool" where
  "planesLoop [] pnts = True"
| "planesLoop ((p0, p1, p2, p3) # rest) pnts =
     (let normal = (p0, p1, p2); d = - p3
      in if cornersOutside normal d pnts then False else planesLoop rest pnts)"

definition testInFrustum :: "Frustum \<Rightarrow> BoundingBox \<Rightarrow> bool" where
  "testInFrustum frustum tb = planesLoop (getPlanes frustum) (tbPnts tb)"

text \<open>
  The half-spaces of a plane \<open>(n, w)\<close> as the specification names them: a point is in the
  negative half-space when \<open>n \<cdot> p + w < 0\<close> and in the positive one otherwise.
\<close>

fun inNegativeHalfSpace :: "dvec4 \<Rightarrow> dvec3 \<Rightarrow> bool" where
  "inNegativeHalfSpace (p0, p1, p2, p3) pnt = (dot (p0, p1, p2) pnt + p3 < 0)"

definition boxOutsidePlane :: "dvec4 \<Rightarrow> BoundingBox \<Rightarrow> bool" where
  "boxOutsidePlane pl tb = list_all (inNegativeHalfSpace pl) (tbPnts tb)"

subsection \<open>Tiles, nodes, render data and tree managers\<close>

datatype error = NullPointer | AssertionFailed | OutOfRange | BadCast

record TileId =
  level :: int
  patchIdx :: int

text \<open>
  Modelled from the spec: \<^verbatim>\<open>HEALPix::getChildTileId\<close> is not among the sources. The
  specification fixes that the child of a level-\<open>L\<close> tile is at level \<open>L + 1\<close> and that its
  patch index is a function of the parent's; the nested numbering \<open>4 p + k\<close> is the function
  taken here.
\<close>

definition getChildTileId :: "TileId \<Rightarrow> int \<Rightarrow> TileId" where
  "getChildTileId tileId childIdx =
     \<lparr>level = level tileId + 1, patchIdx = 4 * patchIdx tileId + childIdx\<rparr>"

text \<open>
  A tile is a \<^verbatim>\<open>Tile<float>\<close> (elevation), of which the model keeps what
  \<^verbatim>\<open>getMinMaxPyramid()->getMin()\<close> returns, or a \<^verbatim>\<open>Tile<glm::u8vec3>\<close> (colour).
\<close>

datatype Tile = TileFloat real | TileU8Vec3

datatype TileNode =
  TileNode (getTileId: TileId) (getTile: Tile)
    (child0: "TileNode option") (child1: "TileNode option")
    (child2: "TileNode option") (child3: "TileNode option")

definition getChild :: "TileNode \<Rightarrow> nat \<Rightarrow> TileNode option" where
  "getChild node i =
     (if i = 0 then child0 node else if i = 1 then child1 node
      else if i = 2 then child2 node else if i = 3 then child3 node else None)"

definition getLevel :: "TileNode \<Rightarrow> int" where
  "getLevel node = level (getTileId node)"

text \<open>The twelve roots of a \<^verbatim>\<open>TileQuadTree\<close>, by index (\<^verbatim>\<open>getRoot(i)\<close>).\<close>

type_synonym TileQuadTree = "nat \<Rightarrow> TileNode option"

definition sNumRoots :: nat where
  "sNumRoots = 12"

definition getRoot :: "TileQuadTree \<Rightarrow> nat \<Rightarrow> TileNode option" where
  "getRoot tree i = tree i"

datatype Flags = eRender

record RenderData =
  getTexLayer :: int
  getLastFrame :: int
  getBounds :: BoundingBox
  getFlags :: "Flags set"

definition setLastFrame :: "int \<Rightarrow> RenderData \<Rightarrow> RenderData" where
  "setLastFrame frame rd = rd\<lparr>getLastFrame := frame\<rparr>"

definition addFlag :: "Flags \<Rightarrow> RenderData \<Rightarrow> RenderData" where
  "addFlag f rd = rd\<lparr>getFlags := insert f (getFlags rd)\<rparr>"

text \<open>
  \<^verbatim>\<open>TreeManagerBase\<close> is not among the sources. The visitor uses its tree, its table of
  render data (\<^verbatim>\<open>findRData\<close>, \<^verbatim>\<open>find<RenderDataDEM>\<close>) and, through \<^verbatim>\<open>VistaPlanet\<close>,
  its tile source. The table is a map from the id of a node's tile to the node's render data,
  and a \<^verbatim>\<open>RenderData*\<close> is the id under which the manager holds the object: two pointers
  to the same object are the same id, and a write through one is seen through the other.
  A tile source is known by its address.
\<close>

type_synonym TileSourcePtr = nat

record TreeManager =
  getTree :: TileQuadTree
  mRData :: "TileId \<Rightarrow> RenderData option"
  mSource :: "TileSourcePtr option"

definition findRData :: "TreeManager \<Rightarrow> TileNode \<Rightarrow> RenderData option" where
  "findRData mgr node = mRData mgr (getTileId node)"

record PlanetParameters =
  mRadii :: dvec3
  mHeightScale :: real
  mLodFactor :: real
  mMinLevel :: int
  mMaxLevel :: int

subsection \<open>The state of the visitor\<close>

type_synonym ivec4 = "int \<times> int \<times> int \<times> int"
type_synonym dmat4 = "dvec4 \<times> dvec4 \<times> dvec4 \<times> dvec4"
type_synonym dmat3 = "dvec3 \<times> dvec3 \<times> dvec3"

record LODData =
  mMatVM :: dmat4
  mMatP :: dmat4
  mFrustumES :: Frustum
  mViewport :: ivec4

record CullData =
  mFrustumMS :: Frustum
  mMatN :: dmat3
  mCamPos :: dvec3

text \<open>
  \<^verbatim>\<open>LODState\<close> with the two node pointers of its base \<^verbatim>\<open>StateBase\<close>. The trees do not
  change during a traversal, so a node pointer is the node; a null pointer is \<open>None\<close>.
\<close>

record LODState =
  mNodeDEM :: "TileNode option"
  mNodeIMG :: "TileNode option"
  mRdDEM :: "TileId option"
  mRdIMG :: "TileId option"

definition nullState :: LODState where
  "nullState = \<lparr>mNodeDEM = None, mNodeIMG = None, mRdDEM = None, mRdIMG = None\<rparr>"

definition sMaxStackDepth :: nat where
  "sMaxStackDepth = 32"

text \<open>
  The fields of \<^verbatim>\<open>LODVisitor\<close>, after the two tree pointers of its base
  \<^verbatim>\<open>TileVisitor\<close>. The visitor holds pointers to the planet's parameters, to two tree
  managers and to their trees. The type of each pointer's target is a parameter of the record:
  the traversal reads and writes the objects themselves (\<open>Visitor\<close> below), while
  \<^verbatim>\<open>VistaPlanet\<close> owns them and hands out their addresses.
\<close>

record ('p, 'm, 't) LODVisitor =
  mTreeDEM :: "'t option"
  mTreeIMG :: "'t option"
  mParams :: 'p
  mTreeMgrDEM :: "'m option"
  mTreeMgrIMG :: "'m option"
  mViewport :: ivec4
  mMatVM :: dmat4
  mMatP :: dmat4
  mLodData :: LODData
  mCullData :: CullData
  mStack :: "LODState list"
  mStackTop :: int
  mLoadDEM :: "TileId list"
  mLoadIMG :: "TileId list"
  mRenderDEM :: "TileId list"
  mRenderIMG :: "TileId list"
  mFrameCount :: int
  mUpdateLOD :: bool
  mUpdateCulling :: bool

type_synonym Visitor = "(PlanetParameters, TreeManager, TileQuadTree) LODVisitor"

text \<open>
  \<^verbatim>\<open>setTreeManagerDEM\<close> and \<^verbatim>\<open>setTreeManagerIMG\<close>. \<open>getTreeOf\<close> stands for
  \<^verbatim>\<open>TreeManagerBase::getTree\<close>. The \<^verbatim>\<open>reserve\<close> calls change no value. Only the DEM
  setter rebuilds the stack.
\<close>

definition setTreeManagerDEM ::
  "('m \<Rightarrow> 't) \<Rightarrow> 'm option \<Rightarrow> ('p, 'm, 't) LODVisitor \<Rightarrow> ('p, 'm, 't) LODVisitor" where
  "setTreeManagerDEM getTreeOf treeMgr v =
     (let v1 = (if mTreeMgrDEM v \<noteq> None then v\<lparr>mTreeDEM := None\<rparr> else v);
          v2 = v1\<lparr>mStack := replicate sMaxStackDepth nullState\<rparr>;
          v3 = v2\<lparr>mTreeMgrDEM := treeMgr\<rparr>
      in case mTreeMgrDEM v3 of
           None \<Rightarrow> v3
         | Some mgr \<Rightarrow> v3\<lparr>mTreeDEM := Some (getTreeOf mgr)\<rparr>)"

definition setTreeManagerIMG ::
  "('m \<Rightarrow> 't) \<Rightarrow> 'm option \<Rightarrow> ('p, 'm, 't) LODVisitor \<Rightarrow> ('p, 'm, 't) LODVisitor" where
  "setTreeManagerIMG getTreeOf treeMgr v =
     (let v1 = (if mTreeMgrIMG v \<noteq> None then v\<lparr>mTreeIMG := None\<rparr> else v);
          v2 = v1\<lparr>mTreeMgrIMG := treeMgr\<rparr>
      in case mTreeMgrIMG v2 of
           None \<Rightarrow> v2
         | Some mgr \<Rightarrow> v2\<lparr>mTreeIMG := Some (getTreeOf mgr)\<rparr>)"

subsection \<open>The horizon test\<close>

text \<open>\<^verbatim>\<open>std::numeric_limits<float>::max()\<close>.\<close>

definition FLT_MAX :: real where
  "FLT_MAX = (2 ^ 24 - 1) * 2 ^ 104"

text \<open>
  The first loop of \<^verbatim>\<open>testFrontFacing\<close>. A missing root is a null pointer that the loop
  dereferences, and a root whose tile is not a \<^verbatim>\<open>Tile<float>\<close> makes the
  \<^verbatim>\<open>dynamic_cast\<close> to a reference throw.
\<close>

fun minHeightLoop :: "TileQuadTree \<Rightarrow> nat list \<Rightarrow> real \<Rightarrow> error + real" where
  "minHeightLoop tree [] minHeight = Inr minHeight"
| "minHeightLoop tree (i # rest) minHeight =
     (case getRoot tree i of
        None \<Rightarrow> Inl NullPointer
      | Some rootNode \<Rightarrow>
          (case getTile rootNode of
             TileFloat tileMin \<Rightarrow> minHeightLoop tree rest (min minHeight tileMin)
           | TileU8Vec3 \<Rightarrow> Inl BadCast))"

text \<open>
  The second loop: the ray-sphere test of each corner, with its three early returns. For a
  corner at the camera \<^verbatim>\<open>dRayLength\<close> is zero and \<^verbatim>\<open>(tbPnt - camPos) / dRayLength\<close>
  is \<open>0 / 0\<close> in each component: \<^verbatim>\<open>vRayDir\<close>, \<^verbatim>\<open>b\<close> and \<^verbatim>\<open>fDet\<close> are NaN, each
  of the three comparisons is false, and the loop goes on to the next corner.
\<close>

fun cornersLoop :: "dvec3 \<Rightarrow> real \<Rightarrow> dvec3 list \<Rightarrow> bool" where
  "cornersLoop camPos dProxyRadius [] = False"
| "cornersLoop camPos dProxyRadius (tbPnt # rest) =
     (let dRayLength = vlength (vsub tbPnt camPos)
      in if dRayLength = 0 then cornersLoop camPos dProxyRadius rest
         else (let vRayDir = vdiv (vsub tbPnt camPos) dRayLength;
                   b = dot camPos vRayDir;
                   c = dot camPos camPos - dProxyRadius * dProxyRadius;
                   fDet = b * b - c
               in if fDet < 0 then True
                  else (let fDet = sqrt fDet
                        in if (- b - fDet) < 0 \<and> (- b + fDet) < 0 then True
                           else if dRayLength < - b - fDet then True
                           else cornersLoop camPos dProxyRadius rest)))"

definition testFrontFacing ::
  "dvec3 \<Rightarrow> PlanetParameters \<Rightarrow> BoundingBox \<Rightarrow> TreeManager option \<Rightarrow> error + bool" where
  "testFrontFacing camPos params tb treeMgrDEM =
     (case treeMgrDEM of
        None \<Rightarrow> Inl AssertionFailed
      | Some mgr \<Rightarrow>
          (case minHeightLoop (getTree mgr) [0..<sNumRoots] FLT_MAX of
             Inl e \<Rightarrow> Inl e
           | Inr minHeight \<Rightarrow>
               (case mRadii params of (rx, ry, rz) \<Rightarrow>
                  (let dProxyRadius = min rx (min ry rz) + minHeight * mHeightScale params
                   in Inr (cornersLoop camPos dProxyRadius (tbPnts tb))))))"









subsection \<open>The callbacks of the visitor\<close>

text \<open>
  A call that dereferences a null pointer, fails an \<^verbatim>\<open>assert\<close> or throws ends the
  frame: every callback returns either an error or its result and the visitor it leaves.
  \<^verbatim>\<open>assert\<close> is taken as checked.
\<close>

definition bindE :: "error + 'a \<Rightarrow> ('a \<Rightarrow> error + 'b) \<Rightarrow> error + 'b" where
  "bindE m f = (case m of Inl e \<Rightarrow> Inl e | Inr a \<Rightarrow> f a)"

text \<open>
  \<^verbatim>\<open>getLODState(level)\<close> returns a reference into the stack; the model returns its
  index. \<^verbatim>\<open>mStack.at\<close> throws outside the vector.
\<close>

definition getLODState :: "Visitor \<Rightarrow> int \<Rightarrow> error + nat" where
  "getLODState v lvl =
     (if mStackTop v < 0 then Inl AssertionFailed
      else (let idx = (if lvl \<ge> 0 then lvl else mStackTop v)
            in if nat idx < length (mStack v) then Inr (nat idx) else Inl OutOfRange))"

definition pushState :: "Visitor \<Rightarrow> error + Visitor" where
  "pushState v =
     (let v1 = v\<lparr>mStackTop := mStackTop v + 1\<rparr>
      in if mStackTop v1 < int sMaxStackDepth then Inr v1 else Inl AssertionFailed)"

definition popState :: "Visitor \<Rightarrow> Visitor" where
  "popState v = v\<lparr>mStackTop := mStackTop v - 1\<rparr>"

text \<open>
  The visitor treats its two channels by the same code, written out twice. The model writes
  it once, for a channel, and names the two instances as the source does.
\<close>

datatype Channel = DEM | IMG

fun mTreeMgr :: "Channel \<Rightarrow> Visitor \<Rightarrow> TreeManager option" where
  "mTreeMgr DEM v = mTreeMgrDEM v"
| "mTreeMgr IMG v = mTreeMgrIMG v"

fun mTree :: "Channel \<Rightarrow> Visitor \<Rightarrow> TileQuadTree option" where
  "mTree DEM v = mTreeDEM v"
| "mTree IMG v = mTreeIMG v"

fun mLoad :: "Channel \<Rightarrow> Visitor \<Rightarrow> TileId list" where
  "mLoad DEM v = mLoadDEM v"
| "mLoad IMG v = mLoadIMG v"

fun mRender :: "Channel \<Rightarrow> Visitor \<Rightarrow> TileId list" where
  "mRender DEM v = mRenderDEM v"
| "mRender IMG v = mRenderIMG v"

fun mNode :: "Channel \<Rightarrow> LODState \<Rightarrow> TileNode option" where
  "mNode DEM state = mNodeDEM state"
| "mNode IMG state = mNodeIMG state"

fun mRd :: "Channel \<Rightarrow> LODState \<Rightarrow> TileId option" where
  "mRd DEM state = mRdDEM state"
| "mRd IMG state = mRdIMG state"

text \<open>A write to the manager behind the pointer of a channel.\<close>

fun writeTreeMgr :: "Channel \<Rightarrow> TreeManager \<Rightarrow> Visitor \<Rightarrow> Visitor" where
  "writeTreeMgr DEM mgr v = v\<lparr>mTreeMgrDEM := Some mgr\<rparr>"
| "writeTreeMgr IMG mgr v = v\<lparr>mTreeMgrIMG := Some mgr\<rparr>"

fun pushLoad :: "Channel \<Rightarrow> TileId \<Rightarrow> Visitor \<Rightarrow> Visitor" where
  "pushLoad DEM tileId v = v\<lparr>mLoadDEM := mLoadDEM v @ [tileId]\<rparr>"
| "pushLoad IMG tileId v = v\<lparr>mLoadIMG := mLoadIMG v @ [tileId]\<rparr>"

fun assignRd :: "Channel \<Rightarrow> TileId option \<Rightarrow> LODState \<Rightarrow> LODState" where
  "assignRd DEM rd state = state\<lparr>mRdDEM := rd\<rparr>"
| "assignRd IMG rd state = state\<lparr>mRdIMG := rd\<rparr>"

text \<open>Reading and writing a \<^verbatim>\<open>RenderData\<close> object through a pointer.\<close>

definition derefRd :: "TreeManager option \<Rightarrow> TileId option \<Rightarrow> error + RenderData" where
  "derefRd treeMgr rd =
     (case rd of
        None \<Rightarrow> Inl NullPointer
      | Some key \<Rightarrow>
          (case treeMgr of
             None \<Rightarrow> Inl NullPointer
           | Some mgr \<Rightarrow> (case mRData mgr key of None \<Rightarrow> Inl NullPointer | Some d \<Rightarrow> Inr d)))"

definition writeRd :: "(RenderData \<Rightarrow> RenderData) \<Rightarrow> TileId \<Rightarrow> TreeManager \<Rightarrow> error + TreeManager" where
  "writeRd f key mgr =
     (case mRData mgr key of
        None \<Rightarrow> Inl NullPointer
      | Some d \<Rightarrow> Inr (mgr\<lparr>mRData := (mRData mgr)(key \<mapsto> f d)\<rparr>))"

text \<open>
  \<^verbatim>\<open>rd = mgr->findRData(node); rd->setLastFrame(mFrameCount)\<close>: a node without render
  data makes the second call go through a null pointer.
\<close>

definition stampNode :: "Channel \<Rightarrow> TileNode \<Rightarrow> Visitor \<Rightarrow> error + Visitor" where
  "stampNode ch node v =
     (case mTreeMgr ch v of
        None \<Rightarrow> Inl NullPointer
      | Some mgr \<Rightarrow>
          (case findRData mgr node of
             None \<Rightarrow> Inl NullPointer
           | Some rd \<Rightarrow> bindE (writeRd (setLastFrame (mFrameCount v)) (getTileId node) mgr)
                          (\<lambda>mgr'. Inr (writeTreeMgr ch mgr' v))))"

text \<open>
  The block that \<^verbatim>\<open>preVisitRoot\<close> and \<^verbatim>\<open>preVisit\<close> run for each channel on the state
  at index \<open>k\<close>: with a manager and a node, the state takes the node's render data and stamps
  it; otherwise it takes \<open>inherited\<close> (null at a root, the parent state's pointer below).
\<close>

definition fetchRd :: "Channel \<Rightarrow> nat \<Rightarrow> TileId option \<Rightarrow> Visitor \<Rightarrow> error + Visitor" where
  "fetchRd ch k inherited v =
     (case mNode ch (mStack v ! k) of
        Some node \<Rightarrow>
          (if mTreeMgr ch v \<noteq> None
           then bindE (stampNode ch node v)
                  (\<lambda>v1. Inr (v1\<lparr>mStack := (mStack v1)[k := assignRd ch (Some (getTileId node)) (mStack v1 ! k)]\<rparr>))
           else Inr (v\<lparr>mStack := (mStack v)[k := assignRd ch inherited (mStack v ! k)]\<rparr>))
      | None \<Rightarrow> Inr (v\<lparr>mStack := (mStack v)[k := assignRd ch inherited (mStack v ! k)]\<rparr>))"

text \<open>The indices of the loops \<^verbatim>\<open>for (int i = 0; i < 4; ++i)\<close> over the children.\<close>

definition childIndices :: "nat list" where
  "childIndices = [0, 1, 2, 3]"

text \<open>\<^verbatim>\<open>childrenAvailable\<close>: the loop over the four children, with its early returns.\<close>

fun childrenAvailableLoop :: "TileNode \<Rightarrow> TreeManager option \<Rightarrow> nat list \<Rightarrow> error + bool" where
  "childrenAvailableLoop node treeMgr [] = Inr True"
| "childrenAvailableLoop node treeMgr (i # rest) =
     (case getChild node i of
        None \<Rightarrow> Inr False
      | Some child \<Rightarrow>
          (case treeMgr of
             None \<Rightarrow> Inl NullPointer
           | Some mgr \<Rightarrow>
               (case findRData mgr child of
                  None \<Rightarrow> Inr False
                | Some rd \<Rightarrow>
                    if getTexLayer rd < 0 then Inr False
                    else childrenAvailableLoop node treeMgr rest)))"

definition childrenAvailable :: "TileNode \<Rightarrow> TreeManager option \<Rightarrow> error + bool" where
  "childrenAvailable node treeMgr = childrenAvailableLoop node treeMgr childIndices"

text \<open>\<^verbatim>\<open>addLoadChildrenDEM\<close> and \<^verbatim>\<open>addLoadChildrenIMG\<close>.\<close>

fun addLoadLoop :: "Channel \<Rightarrow> TileNode \<Rightarrow> nat list \<Rightarrow> Visitor \<Rightarrow> error + Visitor" where
  "addLoadLoop ch node [] v = Inr v"
| "addLoadLoop ch node (i # rest) v =
     (case getChild node i of
        None \<Rightarrow> addLoadLoop ch node rest (pushLoad ch (getChildTileId (getTileId node) (int i)) v)
      | Some child \<Rightarrow> bindE (stampNode ch child v) (addLoadLoop ch node rest))"

definition addLoadChildren :: "Channel \<Rightarrow> TileNode option \<Rightarrow> Visitor \<Rightarrow> error + Visitor" where
  "addLoadChildren ch node v =
     (case node of
        None \<Rightarrow> Inr v
      | Some n \<Rightarrow>
          if getLevel n < mMaxLevel (mParams v) then addLoadLoop ch n childIndices v else Inr v)"

definition addLoadChildrenDEM :: "TileNode option \<Rightarrow> Visitor \<Rightarrow> error + Visitor" where
  "addLoadChildrenDEM = addLoadChildren DEM"

definition addLoadChildrenIMG :: "TileNode option \<Rightarrow> Visitor \<Rightarrow> error + Visitor" where
  "addLoadChildrenIMG = addLoadChildren IMG"


text \<open>\<^verbatim>\<open>testVisible\<close>: the frustum test and, for a box that passes it, the horizon test.\<close>

definition testVisible :: "TileId \<Rightarrow> TreeManager option \<Rightarrow> Visitor \<Rightarrow> error + bool" where
  "testVisible tileId treeMgrDEM v =
     bindE (getLODState v (- 1)) (\<lambda>k.
     bindE (derefRd (mTreeMgrDEM v) (mRdDEM (mStack v ! k))) (\<lambda>rd.
       (let tb = getBounds rd;
            result = testInFrustum (mFrustumMS (mCullData v)) tb
        in if result
           then testFrontFacing (mCamPos (mCullData v)) (mParams v) tb treeMgrDEM
           else Inr result)))"

text \<open>
  \<^verbatim>\<open>testNeedRefine\<close> is the one test whose code guards against rounding
  (\<^verbatim>\<open>std::min(1.0, ...)\<close>), and it can produce NaN from finite inputs: its model keeps
  both. The arithmetic of \<^verbatim>\<open>double\<close> is a parameter. In \<open>Exact\<close> every operation
  returns its real result. In \<open>Binary64\<close> every operation returns its real result rounded to
  the nearest number with 53 significant bits, ties to even, as IEEE 754 prescribes (the
  exponent is unbounded: no overflow to an infinity, no underflow). A value that may be NaN
  is an option, with \<open>None\<close> for NaN.
\<close>

datatype arithmetic = Exact | Binary64

definition roundEven :: "real \<Rightarrow> int" where
  "roundEven y =
     (let f = \<lfloor>y\<rfloor>
      in if y - of_int f < 1 / 2 then f
         else if 1 / 2 < y - of_int f then f + 1
         else if even f then f else f + 1)"

definition binary64 :: "real \<Rightarrow> real" where
  "binary64 x =
     (if x = 0 then 0
      else (let ulp = 2 powr (of_int \<lfloor>log 2 \<bar>x\<bar>\<rfloor> - 52)
            in ulp * of_int (roundEven (x / ulp))))"

fun rnd :: "arithmetic \<Rightarrow> real \<Rightarrow> real" where
  "rnd Exact x = x"
| "rnd Binary64 x = binary64 x"

text \<open>
  The operators of glm on \<^verbatim>\<open>dvec3\<close>, component by component; \<^verbatim>\<open>glm::dot\<close> adds the
  three products from left to right.
\<close>

fun vsub_in :: "arithmetic \<Rightarrow> dvec3 \<Rightarrow> dvec3 \<Rightarrow> dvec3" where
  "vsub_in ar (a1, a2, a3) (b1, b2, b3) = (rnd ar (a1 - b1), rnd ar (a2 - b2), rnd ar (a3 - b3))"

fun vadd_in :: "arithmetic \<Rightarrow> dvec3 \<Rightarrow> dvec3 \<Rightarrow> dvec3" where
  "vadd_in ar (a1, a2, a3) (b1, b2, b3) = (rnd ar (a1 + b1), rnd ar (a2 + b2), rnd ar (a3 + b3))"

fun vscale_in :: "arithmetic \<Rightarrow> real \<Rightarrow> dvec3 \<Rightarrow> dvec3" where
  "vscale_in ar s (a1, a2, a3) = (rnd ar (s * a1), rnd ar (s * a2), rnd ar (s * a3))"

fun dot_in :: "arithmetic \<Rightarrow> dvec3 \<Rightarrow> dvec3 \<Rightarrow> real" where
  "dot_in ar (a1, a2, a3) (b1, b2, b3) =
     rnd ar (rnd ar (rnd ar (a1 * b1) + rnd ar (a2 * b2)) + rnd ar (a3 * b3))"

text \<open>
  \<^verbatim>\<open>glm::normalize(v)\<close> is \<^verbatim>\<open>v * inversesqrt(dot(v, v))\<close> with
  \<^verbatim>\<open>inversesqrt(x) = 1 / sqrt(x)\<close>. For the zero vector that is \<open>0 \<cdot> (1 / 0)\<close>, NaN in
  each component.
\<close>

definition glm_normalize :: "arithmetic \<Rightarrow> dvec3 \<Rightarrow> dvec3 option" where
  "glm_normalize ar a =
     (if a = (0, 0, 0) then None
      else Some (vscale_in ar (rnd ar (1 / rnd ar (sqrt (dot_in ar a a)))) a))"

text \<open>The dot product of two vectors either of which may consist of NaN.\<close>

definition glm_dot :: "arithmetic \<Rightarrow> dvec3 option \<Rightarrow> dvec3 option \<Rightarrow> real option" where
  "glm_dot ar a b =
     (case a of None \<Rightarrow> None | Some x \<Rightarrow> (case b of None \<Rightarrow> None | Some y \<Rightarrow> Some (dot_in ar x y)))"

text \<open>
  \<^verbatim>\<open>std::min(1.0, x)\<close> is \<^verbatim>\<open>(x < 1.0) ? x : 1.0\<close>, which is 1 for NaN;
  \<^verbatim>\<open>std::acos\<close> is NaN outside \<open>[-1, 1]\<close>; \<^verbatim>\<open>std::max(a, b)\<close> is
  \<^verbatim>\<open>(a < b) ? b : a\<close>, which is \<open>a\<close> when either is NaN. The arc cosine of a number
  in \<open>[-1, 1]\<close> is rounded like the result of an operation; no statement below rests on
  the rounding of an arc cosine.
\<close>

definition std_min1 :: "real option \<Rightarrow> real" where
  "std_min1 x = (case x of None \<Rightarrow> 1 | Some c \<Rightarrow> if c < 1 then c else 1)"

definition std_acos :: "arithmetic \<Rightarrow> real \<Rightarrow> real option" where
  "std_acos ar y = (if y < - 1 \<or> 1 < y then None else Some (rnd ar (arccos y)))"

definition std_max :: "real option \<Rightarrow> real option \<Rightarrow> real option" where
  "std_max a b =
     (case a of
        None \<Rightarrow> None
      | Some x \<Rightarrow> (case b of None \<Rightarrow> Some x | Some y \<Rightarrow> if x < y then Some y else Some x))"

text \<open>
  The loop of \<^verbatim>\<open>testNeedRefine\<close> over \<open>tbDirs\<close>, the directions to the corners in the
  order of \<open>tbPnts\<close>; it starts from \<^verbatim>\<open>maxAngle(0.0)\<close>. The argument of
  \<^verbatim>\<open>std::acos\<close> is bounded from above only.
\<close>

definition maxAngleLoop :: "arithmetic \<Rightarrow> dvec3 option list \<Rightarrow> dvec3 option \<Rightarrow> real option" where
  "maxAngleLoop ar tbDirs centerDir =
     foldl (\<lambda>maxAngle tbDir. std_max (std_acos ar (std_min1 (glm_dot ar tbDir centerDir))) maxAngle)
       (Some 0) tbDirs"

text \<open>
  \<^verbatim>\<open>maxAngle / fov * mLodFactor > 10.0\<close>. A comparison with NaN is false. With
  \<open>fov = 0\<close> (taken as \<open>+0\<close>) the quotient is NaN for \<open>maxAngle = 0\<close> and an infinity
  with the sign of \<open>maxAngle\<close> otherwise; its product with the factor is NaN for a factor of
  zero and an infinity otherwise.
\<close>

definition ratioAboveTen :: "arithmetic \<Rightarrow> real option \<Rightarrow> real \<Rightarrow> real \<Rightarrow> bool" where
  "ratioAboveTen ar maxAngle fov lodFactor =
     (case maxAngle of
        None \<Rightarrow> False
      | Some angle \<Rightarrow>
          if fov = 0 then 0 < angle * lodFactor
          else 10 < rnd ar (rnd ar (angle / fov) * lodFactor))"

definition testNeedRefine_in :: "arithmetic \<Rightarrow> TileId \<Rightarrow> Visitor \<Rightarrow> error + bool" where
  "testNeedRefine_in ar tileId v =
     bindE (getLODState v (- 1)) (\<lambda>k.
       (case mNodeDEM (mStack v ! k) of
          None \<Rightarrow> Inr False
        | Some node \<Rightarrow>
            bindE (derefRd (mTreeMgrDEM v) (mRdDEM (mStack v ! k))) (\<lambda>rd.
              (let tb = getBounds rd;
                   tbCenter = vscale_in ar 0.5 (vadd_in ar (getMin tb) (getMax tb));
                   camPos = mCamPos (mCullData v);
                   tbDirs = map (\<lambda>pnt. glm_normalize ar (vsub_in ar pnt camPos)) (tbPnts tb);
                   centerDir = glm_normalize ar (vsub_in ar tbCenter camPos);
                   maxAngle = maxAngleLoop ar tbDirs centerDir;
                   fov = max (getHorizontalFOV (mFrustumES (mLodData v)))
                             (getVerticalFOV (mFrustumES (mLodData v)));
                   result = ratioAboveTen ar maxAngle fov (mLodFactor (mParams v))
               in Inr (if mMinLevel (mParams v) > level tileId then True else result)))))"

text \<open>The traversal is read in exact arithmetic, as the other tests are.\<close>

definition testNeedRefine :: "TileId \<Rightarrow> Visitor \<Rightarrow> error + bool" where
  "testNeedRefine = testNeedRefine_in Exact"

text \<open>
  \<^verbatim>\<open>drawLevel\<close>. The DEM pointer is written through (\<^verbatim>\<open>addFlag\<close>); the IMG pointer is
  only stored.
\<close>

definition drawLevel :: "Visitor \<Rightarrow> error + Visitor" where
  "drawLevel v =
     bindE (getLODState v (- 1)) (\<lambda>k.
     bindE (case mTreeMgrDEM v of
              None \<Rightarrow> Inr v
            | Some mgr \<Rightarrow>
                if mNodeDEM (mStack v ! k) = None then Inl AssertionFailed
                else (case mRdDEM (mStack v ! k) of
                        None \<Rightarrow> Inl AssertionFailed
                      | Some rd \<Rightarrow>
                          bindE (writeRd (addFlag eRender) rd mgr) (\<lambda>mgr'.
                            Inr (v\<lparr>mTreeMgrDEM := Some mgr',
                                   mRenderDEM := mRenderDEM v @ [rd]\<rparr>)))) (\<lambda>v1.
       (case mTreeMgrIMG v1 of
          None \<Rightarrow> Inr v1
        | Some mgr \<Rightarrow>
            if mNodeIMG (mStack v1 ! k) = None then Inl AssertionFailed
            else (case mRdIMG (mStack v1 ! k) of
                    None \<Rightarrow> Inl AssertionFailed
                  | Some rd \<Rightarrow> Inr (v1\<lparr>mRenderIMG := mRenderIMG v1 @ [rd]\<rparr>)))))"

definition handleRefine :: "TileId \<Rightarrow> Visitor \<Rightarrow> error + (bool \<times> Visitor)" where
  "handleRefine tileId v =
     bindE (getLODState v (- 1)) (\<lambda>k.
     bindE (case mNodeDEM (mStack v ! k) of
              Some node \<Rightarrow> childrenAvailable node (mTreeMgrDEM v)
            | None \<Rightarrow> Inr False) (\<lambda>childrenDemAvailable.
     bindE (case mNodeIMG (mStack v ! k) of
              Some node \<Rightarrow> childrenAvailable node (mTreeMgrIMG v)
            | None \<Rightarrow> Inr False) (\<lambda>childrenImgAvailable.
       if mTreeMgrDEM v \<noteq> None \<and> mTreeMgrIMG v \<noteq> None
       then
         bindE (if \<not> childrenDemAvailable
                then addLoadChildrenDEM (mNodeDEM (mStack v ! k)) v else Inr v) (\<lambda>v1.
         bindE (if \<not> childrenImgAvailable
                then addLoadChildrenIMG (mNodeIMG (mStack v1 ! k)) v1 else Inr v1) (\<lambda>v2.
           if childrenDemAvailable \<and> childrenImgAvailable then Inr (True, v2)
           else bindE (drawLevel v2) (\<lambda>v3. Inr (False, v3))))
       else if mTreeMgrDEM v \<noteq> None \<and> mTreeMgrIMG v = None
       then
         (if childrenDemAvailable then Inr (True, v)
          else bindE (addLoadChildrenDEM (mNodeDEM (mStack v ! k)) v) (\<lambda>v1.
               bindE (drawLevel v1) (\<lambda>v2. Inr (False, v2))))
       else Inr (False, v))))"

definition visitNode :: "TileId \<Rightarrow> Visitor \<Rightarrow> error + (bool \<times> Visitor)" where
  "visitNode tileId v =
     bindE (testVisible tileId (mTreeMgrDEM v) v) (\<lambda>visible.
       if visible
       then bindE (testNeedRefine tileId v) (\<lambda>needRefine.
              if needRefine then handleRefine tileId v
              else bindE (drawLevel v) (\<lambda>v1. Inr (False, v1)))
       else Inr (False, v))"

definition preVisitRoot :: "TileId \<Rightarrow> Visitor \<Rightarrow> error + (bool \<times> Visitor)" where
  "preVisitRoot tileId v =
     bindE (getLODState v (- 1)) (\<lambda>k.
     bindE (fetchRd DEM k None v) (\<lambda>v1.
     bindE (fetchRd IMG k None v1) (\<lambda>v2.
       visitNode tileId v2)))"

definition preVisit :: "TileId \<Rightarrow> Visitor \<Rightarrow> error + (bool \<times> Visitor)" where
  "preVisit tileId v =
     bindE (getLODState v (- 1)) (\<lambda>k.
     bindE (getLODState v (level tileId - 1)) (\<lambda>kP.
     bindE (fetchRd DEM k (mRdDEM (mStack v ! kP)) v) (\<lambda>v1.
     bindE (fetchRd IMG k (mRdIMG (mStack v1 ! kP)) v1) (\<lambda>v2.
       visitNode tileId v2))))"

text \<open>
  \<^verbatim>\<open>preTraverse\<close>. \<^verbatim>\<open>Frustum::setFromMatrix\<close> and the matrix functions of glm are not
  among the sources; they are the fields of \<open>ext\<close>.
\<close>

record Externals =
  setFromMatrix :: "dmat4 \<Rightarrow> Frustum \<Rightarrow> Frustum"
  matMul :: "dmat4 \<Rightarrow> dmat4 \<Rightarrow> dmat4"
  inverseTranspose :: "dmat3 \<Rightarrow> dmat3"
  inverse_mat :: "dmat4 \<Rightarrow> dmat4"

fun f64mat3x3 :: "dmat4 \<Rightarrow> dmat3" where
  "f64mat3x3 ((a0, a1, a2, a3), (b0, b1, b2, b3), (c0, c1, c2, c3), col3) =
     ((a0, a1, a2), (b0, b1, b2), (c0, c1, c2))"

fun column3 :: "dmat4 \<Rightarrow> dvec4" where
  "column3 (col0, col1, col2, col3) = col3"

definition checkRoot :: "Channel \<Rightarrow> nat \<Rightarrow> bool \<times> Visitor \<Rightarrow> bool \<times> Visitor" where
  "checkRoot ch i rv =
     (case mTree ch (snd rv) of
        None \<Rightarrow> rv
      | Some tree \<Rightarrow>
          if getRoot tree i = None
          then (False, pushLoad ch \<lparr>level = 0, patchIdx = int i\<rparr> (snd rv))
          else rv)"

fun rootsLoop :: "nat list \<Rightarrow> bool \<times> Visitor \<Rightarrow> bool \<times> Visitor" where
  "rootsLoop [] rv = rv"
| "rootsLoop (i # rest) rv = rootsLoop rest (checkRoot IMG i (checkRoot DEM i rv))"

definition preTraverse :: "Externals \<Rightarrow> Visitor \<Rightarrow> bool \<times> Visitor" where
  "preTraverse ext v =
     (let v1 = (if mUpdateLOD v
                then v\<lparr>mLodData :=
                        \<lparr>LODData.mMatVM = mMatVM v, LODData.mMatP = mMatP v,
                         mFrustumES = setFromMatrix ext (mMatP v) (mFrustumES (mLodData v)),
                         LODData.mViewport = mViewport v\<rparr>\<rparr>
                else v);
          v2 = (if mUpdateCulling v1
                then (case column3 (inverse_mat ext (mMatVM v1)) of (c0, c1, c2, c3) \<Rightarrow>
                        v1\<lparr>mCullData :=
                             \<lparr>mFrustumMS = setFromMatrix ext (matMul ext (mMatP v1) (mMatVM v1))
                                             (mFrustumMS (mCullData v1)),
                              mMatN = inverseTranspose ext (f64mat3x3 (mMatVM v1)),
                              mCamPos = (c0, c1, c2)\<rparr>\<rparr>)
                else v1);
          v3 = v2\<lparr>mLoadDEM := [], mLoadIMG := [], mRenderDEM := [], mRenderIMG := [],
                  mStackTop := - 1\<rparr>
      in rootsLoop [0..<sNumRoots] (True, v3))"


subsection \<open>The refinement criterion of the specification\<close>

text \<open>
  The largest angle, seen from the camera, between the centre of a box and one of its eight
  corners, with the cosine clamped to \<open>[-1, 1]\<close>, and the ratio that is compared with 10.
\<close>

definition clamp :: "real \<Rightarrow> real \<Rightarrow> real \<Rightarrow> real" where
  "clamp x lo hi = min (max x lo) hi"

definition boxCenter :: "BoundingBox \<Rightarrow> dvec3" where
  "boxCenter tb = vscale (1 / 2) (vadd (getMin tb) (getMax tb))"

definition cornerAngle :: "dvec3 \<Rightarrow> BoundingBox \<Rightarrow> dvec3 \<Rightarrow> real" where
  "cornerAngle camPos tb pnt =
     arccos (clamp (dot (normalize_vec (vsub pnt camPos)) (normalize_vec (vsub (boxCenter tb) camPos))) (- 1) 1)"

definition maxAngularSeparation :: "dvec3 \<Rightarrow> BoundingBox \<Rightarrow> real" where
  "maxAngularSeparation camPos tb = Max (cornerAngle camPos tb ` set (tbPnts tb))"

definition refinementRatio :: "dvec3 \<Rightarrow> BoundingBox \<Rightarrow> Frustum \<Rightarrow> real \<Rightarrow> real" where
  "refinementRatio camPos tb frustum lodFactor =
     maxAngularSeparation camPos tb / max (getHorizontalFOV frustum) (getVerticalFOV frustum) * lodFactor"


definition setModelview :: "dmat4 \<Rightarrow> ('p, 'm, 't) LODVisitor \<Rightarrow> ('p, 'm, 't) LODVisitor" where
  "setModelview m v = v\<lparr>mMatVM := m\<rparr>"

definition setProjection :: "dmat4 \<Rightarrow> ('p, 'm, 't) LODVisitor \<Rightarrow> ('p, 'm, 't) LODVisitor" where
  "setProjection m v = v\<lparr>mMatP := m\<rparr>"

definition setViewport :: "ivec4 \<Rightarrow> ('p, 'm, 't) LODVisitor \<Rightarrow> ('p, 'm, 't) LODVisitor" where
  "setViewport vp v = v\<lparr>mViewport := vp\<rparr>"

definition setFrameCount :: "int \<Rightarrow> ('p, 'm, 't) LODVisitor \<Rightarrow> ('p, 'm, 't) LODVisitor" where
  "setFrameCount frameCount v = v\<lparr>mFrameCount := frameCount\<rparr>"

subsection \<open>The traversal\<close>

text \<open>
  Modelled from the spec: \<^verbatim>\<open>TileVisitor\<close> (\<^verbatim>\<open>visit\<close>, \<^verbatim>\<open>visitRoot\<close>,
  \<^verbatim>\<open>visitLevel\<close>) is not among the sources. The specification describes a recursive
  descent over both trees jointly that starts when pre-traversal succeeds, visits the twelve
  roots, pushes a state on descending and pops it on return, on a stack of at most 32 states,
  and descends below a node exactly when the callback for the node returns true. The state
  for a position holds the nodes of both trees at that position, null where a tree has none.
  \<open>depth\<close> counts the states that may still be pushed; \<^verbatim>\<open>pushState\<close> fails before it
  reaches zero.
\<close>

definition setStateNodes :: "TileNode option \<Rightarrow> TileNode option \<Rightarrow> Visitor \<Rightarrow> error + Visitor" where
  "setStateNodes nodeDEM nodeIMG v =
     bindE (getLODState v (- 1)) (\<lambda>k.
       Inr (v\<lparr>mStack := (mStack v)[k := (mStack v ! k)\<lparr>mNodeDEM := nodeDEM, mNodeIMG := nodeIMG\<rparr>]\<rparr>))"

definition childOf :: "TileNode option \<Rightarrow> nat \<Rightarrow> TileNode option" where
  "childOf node i = (case node of None \<Rightarrow> None | Some n \<Rightarrow> getChild n i)"

definition visitChild ::
  "(TileNode option \<Rightarrow> TileNode option \<Rightarrow> TileId \<Rightarrow> Visitor \<Rightarrow> error + Visitor) \<Rightarrow>
   TileNode option \<Rightarrow> TileNode option \<Rightarrow> TileId \<Rightarrow> nat \<Rightarrow> Visitor \<Rightarrow> error + Visitor" where
  "visitChild descend nodeDEM nodeIMG tileId i v =
     (let childDEM = childOf nodeDEM i;
          childIMG = childOf nodeIMG i;
          childId = getChildTileId tileId (int i)
      in bindE (setStateNodes childDEM childIMG v) (\<lambda>v1.
         bindE (preVisit childId v1) (\<lambda>rv.
           if fst rv then descend childDEM childIMG childId (snd rv) else Inr (snd rv))))"

primrec visitLevel ::
  "nat \<Rightarrow> TileNode option \<Rightarrow> TileNode option \<Rightarrow> TileId \<Rightarrow> Visitor \<Rightarrow> error + Visitor" where
  "visitLevel 0 nodeDEM nodeIMG tileId v = Inl AssertionFailed"
| "visitLevel (Suc depth) nodeDEM nodeIMG tileId v =
     bindE (pushState v) (\<lambda>v0.
     bindE (visitChild (visitLevel depth) nodeDEM nodeIMG tileId 0 v0) (\<lambda>v1.
     bindE (visitChild (visitLevel depth) nodeDEM nodeIMG tileId 1 v1) (\<lambda>v2.
     bindE (visitChild (visitLevel depth) nodeDEM nodeIMG tileId 2 v2) (\<lambda>v3.
     bindE (visitChild (visitLevel depth) nodeDEM nodeIMG tileId 3 v3) (\<lambda>v4.
       Inr (popState v4))))))"

definition rootOf :: "TileQuadTree option \<Rightarrow> nat \<Rightarrow> TileNode option" where
  "rootOf tree i = (case tree of None \<Rightarrow> None | Some t \<Rightarrow> getRoot t i)"

definition visitRoot :: "nat \<Rightarrow> Visitor \<Rightarrow> error + Visitor" where
  "visitRoot i v =
     (let rootDEM = rootOf (mTreeDEM v) i;
          rootIMG = rootOf (mTreeIMG v) i;
          tileId = \<lparr>level = 0, patchIdx = int i\<rparr>
      in bindE (pushState v) (\<lambda>v0.
         bindE (setStateNodes rootDEM rootIMG v0) (\<lambda>v1.
         bindE (preVisitRoot tileId v1) (\<lambda>rv.
         bindE (if fst rv then visitLevel sMaxStackDepth rootDEM rootIMG tileId (snd rv)
                else Inr (snd rv)) (\<lambda>v3.
           Inr (popState v3))))))"

fun visitRoots :: "nat list \<Rightarrow> Visitor \<Rightarrow> error + Visitor" where
  "visitRoots [] v = Inr v"
| "visitRoots (i # rest) v = bindE (visitRoot i v) (visitRoots rest)"

definition visit :: "Externals \<Rightarrow> Visitor \<Rightarrow> error + Visitor" where
  "visit ext v =
     (case preTraverse ext v of
        (proceed, v1) \<Rightarrow> if proceed then visitRoots [0..<sNumRoots] v1 else Inr v1)"

subsection \<open>The renderer\<close>








subsection \<open>The planet\<close>

text \<open>
  \<^verbatim>\<open>VistaPlanet\<close> owns the parameters, the visitor, the renderer and the two tree managers.
  The visitor and the renderer hold the addresses of the managers; a tree is known by the
  address of its manager. The tile sources are objects outside the planet: what the planet
  does to them is the list of the \<^verbatim>\<open>init\<close> and \<^verbatim>\<open>fini\<close> calls it makes. Fields whose
  names the visitor has too carry a suffix.
\<close>

datatype TreeMgrAddr = AddrTreeMgrDEM | AddrTreeMgrIMG

record TileRenderer =
  mTreeMgrDEM_R :: "TreeMgrAddr option"
  mTreeMgrIMG_R :: "TreeMgrAddr option"

datatype SourceCall = CallInit TileSourcePtr | CallFini TileSourcePtr

record VistaPlanet =
  mParams_P :: PlanetParameters
  mLodVisitor :: "(unit, TreeMgrAddr, TreeMgrAddr) LODVisitor"
  mRenderer :: TileRenderer
  mSrcDEM :: "TileSourcePtr option"
  mTreeMgrDEM_P :: TreeManager
  mSrcIMG :: "TileSourcePtr option"
  mTreeMgrIMG_P :: TreeManager
  mFlags :: "32 word"
  mSourceCalls :: "SourceCall list"

text \<open>
  Modelled from the spec: \<^verbatim>\<open>TreeManagerBase::setSource\<close> is not among the sources. The
  specification says that it attaches or detaches a source and that on detach it drains the
  requests in flight and tears down the tree.
\<close>

definition setSource :: "TileSourcePtr option \<Rightarrow> TreeManager \<Rightarrow> TreeManager" where
  "setSource src mgr =
     (case src of
        None \<Rightarrow> mgr\<lparr>getTree := (\<lambda>i. None), mRData := Map.empty, mSource := None\<rparr>
      | Some s \<Rightarrow> mgr\<lparr>mSource := Some s\<rparr>)"

definition setDEMSource :: "TileSourcePtr option \<Rightarrow> VistaPlanet \<Rightarrow> VistaPlanet" where
  "setDEMSource srcDEM p =
     (if mSrcDEM p = srcDEM then p
      else
        (let p1 = (case mSrcDEM p of
                     None \<Rightarrow> p
                   | Some old \<Rightarrow>
                       p\<lparr>mSourceCalls := mSourceCalls p @ [CallFini old],
                         mLodVisitor := setTreeManagerDEM id None (mLodVisitor p),
                         mRenderer := (mRenderer p)\<lparr>mTreeMgrDEM_R := None\<rparr>,
                         mTreeMgrDEM_P := setSource None (mTreeMgrDEM_P p)\<rparr>);
             p2 = p1\<lparr>mSrcDEM := srcDEM\<rparr>
         in case mSrcDEM p2 of
              None \<Rightarrow> p2
            | Some new \<Rightarrow>
                p2\<lparr>mSourceCalls := mSourceCalls p2 @ [CallInit new],
                   mTreeMgrDEM_P := setSource (Some new) (mTreeMgrDEM_P p2),
                   mLodVisitor := setTreeManagerDEM id (Some AddrTreeMgrDEM) (mLodVisitor p2),
                   mRenderer := (mRenderer p2)\<lparr>mTreeMgrDEM_R := Some AddrTreeMgrDEM\<rparr>\<rparr>))"

definition setIMGSource :: "TileSourcePtr option \<Rightarrow> VistaPlanet \<Rightarrow> VistaPlanet" where
  "setIMGSource srcIMG p =
     (if mSrcIMG p = srcIMG then p
      else
        (let p1 = (case mSrcIMG p of
                     None \<Rightarrow> p
                   | Some old \<Rightarrow>
                       p\<lparr>mSourceCalls := mSourceCalls p @ [CallFini old],
                         mLodVisitor := setTreeManagerIMG id None (mLodVisitor p),
                         mRenderer := (mRenderer p)\<lparr>mTreeMgrIMG_R := None\<rparr>,
                         mTreeMgrIMG_P := setSource None (mTreeMgrIMG_P p)\<rparr>);
             p2 = p1\<lparr>mSrcIMG := srcIMG\<rparr>
         in case mSrcIMG p2 of
              None \<Rightarrow> p2
            | Some new \<Rightarrow>
                p2\<lparr>mSourceCalls := mSourceCalls p2 @ [CallInit new],
                   mTreeMgrIMG_P := setSource (Some new) (mTreeMgrIMG_P p2),
                   mLodVisitor := setTreeManagerIMG id (Some AddrTreeMgrIMG) (mLodVisitor p2),
                   mRenderer := (mRenderer p2)\<lparr>mTreeMgrIMG_R := Some AddrTreeMgrIMG\<rparr>\<rparr>))"

text \<open>
  The value of \<^verbatim>\<open>sFlagTileBoundsInvalid\<close> is declared in \<^verbatim>\<open>VistaPlanet.hpp\<close>, which
  is not among the sources, and so is \<^verbatim>\<open>UpdateBoundsVisitor\<close>: the flag and the effect
  \<open>ubVisit\<close> of \<^verbatim>\<open>ubVisitor.visit()\<close> on the DEM manager are parameters.
\<close>

definition setRadii :: "32 word \<Rightarrow> dvec3 \<Rightarrow> VistaPlanet \<Rightarrow> VistaPlanet" where
  "setRadii sFlagTileBoundsInvalid radii p =
     p\<lparr>mParams_P := (mParams_P p)\<lparr>mRadii := radii\<rparr>,
       mFlags := mFlags p OR sFlagTileBoundsInvalid\<rparr>"

definition setHeightScale :: "32 word \<Rightarrow> real \<Rightarrow> VistaPlanet \<Rightarrow> VistaPlanet" where
  "setHeightScale sFlagTileBoundsInvalid scale p =
     p\<lparr>mParams_P := (mParams_P p)\<lparr>mHeightScale := scale\<rparr>,
       mFlags := mFlags p OR sFlagTileBoundsInvalid\<rparr>"

definition setLODFactor :: "real \<Rightarrow> VistaPlanet \<Rightarrow> VistaPlanet" where
  "setLODFactor lodFactor p = p\<lparr>mParams_P := (mParams_P p)\<lparr>mLodFactor := lodFactor\<rparr>\<rparr>"

definition setMinLevel :: "int \<Rightarrow> VistaPlanet \<Rightarrow> VistaPlanet" where
  "setMinLevel minLevel p = p\<lparr>mParams_P := (mParams_P p)\<lparr>mMinLevel := minLevel\<rparr>\<rparr>"

definition setMaxLevel :: "int \<Rightarrow> VistaPlanet \<Rightarrow> VistaPlanet" where
  "setMaxLevel maxLevel p = p\<lparr>mParams_P := (mParams_P p)\<lparr>mMaxLevel := maxLevel\<rparr>\<rparr>"

definition updateTileBounds ::
  "32 word \<Rightarrow> (PlanetParameters \<Rightarrow> TreeManager \<Rightarrow> TreeManager) \<Rightarrow> VistaPlanet \<Rightarrow> VistaPlanet" where
  "updateTileBounds sFlagTileBoundsInvalid ubVisit p =
     (if (mFlags p AND sFlagTileBoundsInvalid) \<noteq> 0
      then p\<lparr>mTreeMgrDEM_P := ubVisit (mParams_P p) (mTreeMgrDEM_P p),
             mFlags := mFlags p AND NOT sFlagTileBoundsInvalid\<rparr>
      else p)"

text \<open>The bounding boxes a manager holds, by tile.\<close>

definition boundsOf :: "TreeManager \<Rightarrow> TileId \<Rightarrow> BoundingBox option" where
  "boundsOf mgr tileId = map_option getBounds (mRData mgr tileId)"


subsection \<open>Notions of the specification about frames\<close>

text \<open>The root ids that pre-traversal requests for an attached tree: those of the missing roots.\<close>

definition missingRoots :: "TileQuadTree option \<Rightarrow> nat list \<Rightarrow> TileId list" where
  "missingRoots tree is =
     (case tree of
        None \<Rightarrow> []
      | Some t \<Rightarrow> map (\<lambda>i. \<lparr>level = 0, patchIdx = int i\<rparr>) (filter (\<lambda>i. getRoot t i = None) is))"

text \<open>The test of \<^verbatim>\<open>updateTileBounds\<close>: the tile-bounds-invalid flag is set.\<close>

definition tileBoundsInvalid :: "32 word \<Rightarrow> VistaPlanet \<Rightarrow> bool" where
  "tileBoundsInvalid sFlagTileBoundsInvalid p = ((mFlags p AND sFlagTileBoundsInvalid) \<noteq> 0)"


subsection \<open>Notions of the specification about refinement\<close>

text \<open>
  All four children of a node are present with render data on a texture layer; the ids of the
  missing children; the children that are present; a manager after \<^verbatim>\<open>lastUsedFrame\<close> has
  been stamped on the render data of some tiles; the stamp of a tile.
\<close>

definition childrenResident :: "TreeManager \<Rightarrow> TileNode \<Rightarrow> bool" where
  "childrenResident mgr node =
     list_all (\<lambda>i. case getChild node i of
                      None \<Rightarrow> False
                    | Some child \<Rightarrow>
                        (case findRData mgr child of None \<Rightarrow> False | Some rd \<Rightarrow> 0 \<le> getTexLayer rd))
       childIndices"

definition missingChildIds :: "TileNode \<Rightarrow> nat list \<Rightarrow> TileId list" where
  "missingChildIds node is =
     map (\<lambda>i. getChildTileId (getTileId node) (int i)) (filter (\<lambda>i. getChild node i = None) is)"

definition presentChildren :: "TileNode \<Rightarrow> nat list \<Rightarrow> TileNode list" where
  "presentChildren node is = concat (map (\<lambda>i. case getChild node i of None \<Rightarrow> [] | Some c \<Rightarrow> [c]) is)"

definition stampTiles :: "int \<Rightarrow> TileNode list \<Rightarrow> TreeManager \<Rightarrow> TreeManager" where
  "stampTiles frame tiles mgr =
     mgr\<lparr>mRData := (\<lambda>key. if key \<in> getTileId ` set tiles
                            then map_option (setLastFrame frame) (mRData mgr key)
                            else mRData mgr key)\<rparr>"

definition lastFrameOf :: "TreeManager option \<Rightarrow> TileNode \<Rightarrow> int option" where
  "lastFrameOf treeMgr node =
     (case treeMgr of None \<Rightarrow> None | Some mgr \<Rightarrow> map_option getLastFrame (findRData mgr node))"

text \<open>The load step of a channel, as the specification puts it.\<close>

definition loadStep :: "Channel \<Rightarrow> TileNode \<Rightarrow> TreeManager \<Rightarrow> Visitor \<Rightarrow> Visitor" where
  "loadStep ch node mgr v =
     (if getLevel node < mMaxLevel (mParams v)
      then foldl (\<lambda>w t. pushLoad ch t w)
             (writeTreeMgr ch (stampTiles (mFrameCount v) (presentChildren node childIndices) mgr) v)
             (missingChildIds node childIndices)
      else v)"


subsection \<open>Notions of the specification about the load lists\<close>

text \<open>
  The nodes of a tree: the nodes below its twelve roots. A tile id names a node of a tree
  when some node of the tree carries it.
\<close>

fun nodesOf :: "TileNode \<Rightarrow> TileNode list"
  and nodesBelow :: "TileNode option \<Rightarrow> TileNode list" where
  "nodesOf (TileNode tileId tile c0 c1 c2 c3) =
     TileNode tileId tile c0 c1 c2 c3 #
       (nodesBelow c0 @ nodesBelow c1 @ nodesBelow c2 @ nodesBelow c3)"
| "nodesBelow None = []"
| "nodesBelow (Some node) = nodesOf node"

definition inTree :: "TileQuadTree \<Rightarrow> TileNode \<Rightarrow> bool" where
  "inTree tree node = list_ex (\<lambda>i. node \<in> set (nodesBelow (getRoot tree i))) [0..<sNumRoots]"

definition hasNode :: "TileQuadTree \<Rightarrow> TileId \<Rightarrow> bool" where
  "hasNode tree tileId =
     list_ex (\<lambda>i. tileId \<in> getTileId ` set (nodesBelow (getRoot tree i))) [0..<sNumRoots]"

text \<open>
  \<^verbatim>\<open>TileQuadTree\<close> and \<^verbatim>\<open>TreeManagerBase\<close>, which build the trees, are not among the
  sources. In a tree they build, the id of a node says where the node is: root \<open>i\<close> has
  the id of level 0 and patch \<open>i\<close>, and child \<open>k\<close> of a node has the id that
  \<^verbatim>\<open>HEALPix::getChildTileId\<close> gives for the node and \<open>k\<close>.
\<close>

definition childIdsOK :: "TileNode \<Rightarrow> bool" where
  "childIdsOK node =
     list_all (\<lambda>i. case getChild node i of
                      None \<Rightarrow> True
                    | Some c \<Rightarrow> getTileId c = getChildTileId (getTileId node) (int i))
       childIndices"

definition wfTree :: "TileQuadTree \<Rightarrow> bool" where
  "wfTree tree =
     list_all (\<lambda>i. case getRoot tree i of
                      None \<Rightarrow> True
                    | Some r \<Rightarrow> getTileId r = \<lparr>level = 0, patchIdx = int i\<rparr> \<and>
                        list_all childIdsOK (nodesOf r))
       [0..<sNumRoots]"

definition wfTrees :: "Visitor \<Rightarrow> bool" where
  "wfTrees v =
     ((case mTreeDEM v of None \<Rightarrow> True | Some t \<Rightarrow> wfTree t) \<and>
      (case mTreeIMG v of None \<Rightarrow> True | Some t \<Rightarrow> wfTree t))"

text \<open>
  A tile id that may stand in the load list of a channel: the channel has a tree, no node of
  the tree has the id, and the level of the id is at most the maximum level, or zero where
  the maximum level is negative.
\<close>

definition requestable :: "TileQuadTree option \<Rightarrow> int \<Rightarrow> TileId \<Rightarrow> bool" where
  "requestable tree maxLevel tileId =
     ((case tree of None \<Rightarrow> False | Some t \<Rightarrow> \<not> hasNode t tileId) \<and> level tileId \<le> max 0 maxLevel)"

definition loadsOK :: "Visitor \<Rightarrow> bool" where
  "loadsOK v =
     (list_all (requestable (mTreeDEM v) (mMaxLevel (mParams v))) (mLoadDEM v) \<and>
      list_all (requestable (mTreeIMG v) (mMaxLevel (mParams v))) (mLoadIMG v))"

text \<open>
  For the proofs: the nodes reachable from a node and the nodes of a tree as inductive sets,
  the children of a node as a list, the parts of the visitor that a traversal leaves as they
  are (the trees and the parameters; with them the top of the stack and the nodes of its
  states, which the callbacks leave as they are), and the invariant of the traversal: the
  nodes of the current state are nodes of the trees, the ids of the trees say where the nodes
  are, and the load lists hold ids that may stand there.
\<close>

inductive_set subtree :: "TileNode \<Rightarrow> TileNode set" for r where
  top: "r \<in> subtree r"
| down: "m \<in> subtree r \<Longrightarrow> i < 4 \<Longrightarrow> getChild m i = Some c \<Longrightarrow> c \<in> subtree r"

fun childList :: "TileNode \<Rightarrow> TileNode option list" where
  "childList (TileNode tileId tile c0 c1 c2 c3) = [c0, c1, c2, c3]"

inductive_set treeNodes :: "TileQuadTree \<Rightarrow> TileNode set" for tree where
  base: "i < sNumRoots \<Longrightarrow> getRoot tree i = Some r \<Longrightarrow> r \<in> treeNodes tree"
| step: "m \<in> treeNodes tree \<Longrightarrow> i < 4 \<Longrightarrow> getChild m i = Some c \<Longrightarrow> c \<in> treeNodes tree"

definition static :: "Visitor \<Rightarrow> TileQuadTree option \<times> TileQuadTree option \<times> PlanetParameters" where
  "static v = (mTreeDEM v, mTreeIMG v, mParams v)"

definition skeleton ::
  "Visitor \<Rightarrow> (TileQuadTree option \<times> TileQuadTree option \<times> PlanetParameters) \<times> int \<times>
     (TileNode option \<times> TileNode option) list" where
  "skeleton v = (static v, mStackTop v, map (\<lambda>state. (mNodeDEM state, mNodeIMG state)) (mStack v))"

definition nodeOK :: "TileQuadTree option \<Rightarrow> TileNode option \<Rightarrow> bool" where
  "nodeOK tree node =
     (case node of None \<Rightarrow> True | Some n \<Rightarrow> (case tree of None \<Rightarrow> False | Some t \<Rightarrow> inTree t n))"

definition topOK :: "Visitor \<Rightarrow> bool" where
  "topOK v =
     (case getLODState v (- 1) of
        Inl e \<Rightarrow> True
      | Inr k \<Rightarrow> nodeOK (mTreeDEM v) (mNodeDEM (mStack v ! k)) \<and>
                 nodeOK (mTreeIMG v) (mNodeIMG (mStack v ! k)))"

definition visitInv :: "Visitor \<Rightarrow> bool" where
  "visitInv v = (topOK v \<and> wfTrees v \<and> loadsOK v)"

subsection \<open>Example inputs\<close>

text \<open>The six planes of the cube \<open>[-1, 1]\<^sup>3\<close>, normals pointing inwards.\<close>

definition cubeFrustum :: Frustum where
  "cubeFrustum =
     \<lparr>getPlanes = [(1, 0, 0, 1), (-1, 0, 0, 1), (0, 1, 0, 1), (0, -1, 0, 1),
                   (0, 0, 1, 1), (0, 0, -1, 1)],
      getHorizontalFOV = 1, getVerticalFOV = 1\<rparr>"

definition unitParams :: PlanetParameters where
  "unitParams =
     \<lparr>mRadii = (1, 1, 1), mHeightScale = 1, mLodFactor = 1, mMinLevel = 0, mMaxLevel = 1\<rparr>"

definition leafNode :: "TileId \<Rightarrow> TileNode" where
  "leafNode tileId = TileNode tileId (TileFloat 0) None None None None"

text \<open>A tree of twelve roots without children, all of elevation zero.\<close>

definition rootsOnly :: TileQuadTree where
  "rootsOnly i = (if i < 12 then Some (leafNode \<lparr>level = 0, patchIdx = int i\<rparr>) else None)"

text \<open>
  A manager that holds the twelve roots, each with render data on texture layer \<open>layer\<close>,
  and a visitor between two frames.
\<close>

definition boxRd :: "int \<Rightarrow> RenderData" where
  "boxRd layer =
     \<lparr>getTexLayer = layer, getLastFrame = 0,
      getBounds = \<lparr>getMin = (- 1, - 1, 0), getMax = (1, 1, 2)\<rparr>, getFlags = {}\<rparr>"

definition rootsMgr :: "int \<Rightarrow> TreeManager" where
  "rootsMgr layer =
     \<lparr>getTree = rootsOnly,
      mRData = (\<lambda>tileId. if level tileId = 0 \<and> 0 \<le> patchIdx tileId \<and> patchIdx tileId < 12
                          then Some (boxRd layer) else None),
      mSource = Some 1\<rparr>"

definition zeroMat :: dmat4 where
  "zeroMat = ((0, 0, 0, 0), (0, 0, 0, 0), (0, 0, 0, 0), (0, 0, 0, 0))"

definition narrowFrustum :: Frustum where
  "narrowFrustum = \<lparr>getPlanes = [], getHorizontalFOV = 1 / 20, getVerticalFOV = 1 / 40\<rparr>"

definition idleVisitor :: "PlanetParameters \<Rightarrow> TreeManager option \<Rightarrow> TreeManager option \<Rightarrow> Visitor" where
  "idleVisitor params mgrDEM mgrIMG =
     \<lparr>mTreeDEM = map_option getTree mgrDEM, mTreeIMG = map_option getTree mgrIMG,
      mParams = params, mTreeMgrDEM = mgrDEM, mTreeMgrIMG = mgrIMG,
      mViewport = (0, 0, 0, 0), mMatVM = zeroMat, mMatP = zeroMat,
      mLodData = \<lparr>LODData.mMatVM = zeroMat, LODData.mMatP = zeroMat,
                  mFrustumES = narrowFrustum, LODData.mViewport = (0, 0, 0, 0)\<rparr>,
      mCullData = \<lparr>mFrustumMS = narrowFrustum, mMatN = ((0, 0, 0), (0, 0, 0), (0, 0, 0)),
                   mCamPos = (0, 0, 0)\<rparr>,
      mStack = replicate sMaxStackDepth nullState, mStackTop = - 1,
      mLoadDEM = [], mLoadIMG = [], mRenderDEM = [], mRenderIMG = [],
      mFrameCount = 7, mUpdateLOD = True, mUpdateCulling = True\<rparr>"

definition atRoot :: "nat \<Rightarrow> Visitor \<Rightarrow> Visitor" where
  "atRoot i v =
     v\<lparr>mStackTop := 0,
       mStack := (mStack v)[0 := \<lparr>mNodeDEM = (case mTreeDEM v of None \<Rightarrow> None | Some t \<Rightarrow> t i),
                                  mNodeIMG = (case mTreeIMG v of None \<Rightarrow> None | Some t \<Rightarrow> t i),
                                  mRdDEM = (case mTreeDEM v of None \<Rightarrow> None | Some t \<Rightarrow> map_option getTileId (t i)),
                                  mRdIMG = (case mTreeIMG v of None \<Rightarrow> None | Some t \<Rightarrow> map_option getTileId (t i))\<rparr>]\<rparr>"


text \<open>A planet as its constructor leaves it, and stand-ins for the functions taken as parameters.\<close>

definition emptyMgr :: TreeManager where
  "emptyMgr = \<lparr>getTree = (\<lambda>i. None), mRData = Map.empty, mSource = None\<rparr>"

definition detachedVisitor :: "(unit, TreeMgrAddr, TreeMgrAddr) LODVisitor" where
  "detachedVisitor =
     \<lparr>mTreeDEM = None, mTreeIMG = None, mParams = (), mTreeMgrDEM = None, mTreeMgrIMG = None,
      mViewport = (0, 0, 0, 0), mMatVM = zeroMat, mMatP = zeroMat,
      mLodData = \<lparr>LODData.mMatVM = zeroMat, LODData.mMatP = zeroMat,
                  mFrustumES = narrowFrustum, LODData.mViewport = (0, 0, 0, 0)\<rparr>,
      mCullData = \<lparr>mFrustumMS = narrowFrustum, mMatN = ((0, 0, 0), (0, 0, 0), (0, 0, 0)),
                   mCamPos = (0, 0, 0)\<rparr>,
      mStack = replicate sMaxStackDepth nullState, mStackTop = - 1,
      mLoadDEM = [], mLoadIMG = [], mRenderDEM = [], mRenderIMG = [],
      mFrameCount = 0, mUpdateLOD = True, mUpdateCulling = True\<rparr>"

definition newPlanet :: VistaPlanet where
  "newPlanet =
     \<lparr>mParams_P = unitParams, mLodVisitor = detachedVisitor,
      mRenderer = \<lparr>mTreeMgrDEM_R = None, mTreeMgrIMG_R = None\<rparr>,
      mSrcDEM = None, mTreeMgrDEM_P = emptyMgr, mSrcIMG = None, mTreeMgrIMG_P = emptyMgr,
      mFlags = 0, mSourceCalls = []\<rparr>"

definition boxFromRadii :: "PlanetParameters \<Rightarrow> TreeManager \<Rightarrow> TreeManager" where
  "boxFromRadii params mgr =
     mgr\<lparr>mRData := (\<lambda>tileId. map_option
        (\<lambda>rd. rd\<lparr>getBounds := \<lparr>getMin = (0, 0, 0), getMax = mRadii params\<rparr>\<rparr>) (mRData mgr tileId))\<rparr>"

definition columnExt :: Externals where
  "columnExt =
     \<lparr>setFromMatrix = (\<lambda>m f. f\<lparr>getPlanes := [fst m]\<rparr>), matMul = (\<lambda>a b. a),
      inverseTranspose = (\<lambda>m. m), inverse_mat = (\<lambda>m. m)\<rparr>"

definition oneMat :: dmat4 where
  "oneMat = ((1, 0, 0, 0), (0, 1, 0, 0), (0, 0, 1, 0), (5, 6, 7, 1))"

definition moveCamera :: "Visitor \<Rightarrow> Visitor" where
  "moveCamera v = setViewport (0, 0, 800, 600) (setProjection oneMat (setModelview oneMat v))"


text \<open>
  A tree whose root 0 has its first child only, a manager that holds render data for every
  node of it, and the visitor after it has drawn root 0 without refining.
\<close>

definition partialTree :: TileQuadTree where
  "partialTree i =
     (if i = 0
      then Some (TileNode \<lparr>level = 0, patchIdx = 0\<rparr> (TileFloat 0)
                  (Some (leafNode \<lparr>level = 1, patchIdx = 0\<rparr>)) None None None)
      else if i < 12 then Some (leafNode \<lparr>level = 0, patchIdx = int i\<rparr>) else None)"

definition partialMgr :: TreeManager where
  "partialMgr =
     \<lparr>getTree = partialTree,
      mRData = (\<lambda>tileId. if (level tileId = 0 \<and> 0 \<le> patchIdx tileId \<and> patchIdx tileId < 12) \<or>
                             tileId = \<lparr>level = 1, patchIdx = 0\<rparr>
                          then Some (boxRd 0) else None),
      mSource = Some 16\<rparr>"

definition levelParams :: "int \<Rightarrow> PlanetParameters" where
  "levelParams maxLevel = unitParams\<lparr>mMaxLevel := maxLevel\<rparr>"

definition drawnRoot :: Visitor where
  "drawnRoot =
     (atRoot 0 (idleVisitor (levelParams 0) (Some partialMgr) (Some partialMgr)))
       \<lparr>mTreeMgrDEM := Some (partialMgr\<lparr>mRData := (mRData partialMgr)
          (\<lparr>level = 0, patchIdx = 0\<rparr> \<mapsto> addFlag eRender (boxRd 0))\<rparr>),
        mRenderDEM := [\<lparr>level = 0, patchIdx = 0\<rparr>], mRenderIMG := [\<lparr>level = 0, patchIdx = 0\<rparr>]\<rparr>"


text \<open>
  The visitor at root 0 with the camera inside the box of the root, half way between its
  centre and its last corner.
\<close>

definition insideBox :: Visitor where
  "insideBox =
     (atRoot 0 (idleVisitor unitParams (Some (rootsMgr 0)) None))
       \<lparr>mLodData := \<lparr>LODData.mMatVM = zeroMat, LODData.mMatP = zeroMat,
                     mFrustumES = \<lparr>getPlanes = [], getHorizontalFOV = 1 / 16, getVerticalFOV = 1 / 32\<rparr>,
                     LODData.mViewport = (0, 0, 0, 0)\<rparr>,
        mCullData := \<lparr>mFrustumMS = narrowFrustum, mMatN = ((0, 0, 0), (0, 0, 0), (0, 0, 0)),
                      mCamPos = (- (1 / 2), 1 / 2, 3 / 2)\<rparr>\<rparr>"










section \<open>Properties\<close>

subsection \<open>The frustum test\<close>

lemma length_tbPnts: "length (tbPnts tb) = 8"
  by (simp add: tbPnts_def split: prod.splits)

lemma cornersOutside_iff:
  "cornersOutside (p0, p1, p2) (- p3) pnts = list_all (inNegativeHalfSpace (p0, p1, p2, p3)) pnts"
  by (induction pnts) auto

lemma planesLoop_iff:
  "planesLoop pls pnts = (\<not> list_ex (\<lambda>pl. list_all (inNegativeHalfSpace pl) pnts) pls)"
proof (induction pls)
  case Nil
  show ?case by simp
next
  case (Cons pl pls)
  obtain p0 p1 p2 p3 where pl: "pl = (p0, p1, p2, p3)"
    by (cases pl) auto
  show ?case
    unfolding pl using Cons.IH by (simp add: cornersOutside_iff del: inNegativeHalfSpace.simps)
qed

text \<open>
  C5. The frustum test reports a box outside exactly when some frustum plane has all eight
  corners in its negative half-space; a corner that is not in the negative half-space of a
  plane keeps the box alive for that plane, and the box is visible exactly when no plane
  excludes it.
\<close>

theorem testInFrustum_spec:
  "((\<not> testInFrustum frustum tb) =
      (\<exists>pl \<in> set (getPlanes frustum). \<forall>pnt \<in> set (tbPnts tb). inNegativeHalfSpace pl pnt)) \<and>
   (testInFrustum frustum tb =
      (\<forall>pl \<in> set (getPlanes frustum). \<exists>pnt \<in> set (tbPnts tb). \<not> inNegativeHalfSpace pl pnt)) \<and>
   (testInFrustum frustum tb = (\<forall>pl \<in> set (getPlanes frustum). \<not> boxOutsidePlane pl tb)) \<and>
   length (tbPnts tb) = 8"
  by (simp add: testInFrustum_def planesLoop_iff boxOutsidePlane_def list_ex_iff
      list_all_iff length_tbPnts)

theorem testInFrustum_spec_witness:
  "\<not> testInFrustum cubeFrustum \<lparr>getMin = (2, 2, 2), getMax = (3, 3, 3)\<rparr> \<and>
   (\<exists>pl \<in> set (getPlanes cubeFrustum).
      \<forall>pnt \<in> set (tbPnts \<lparr>getMin = (2, 2, 2), getMax = (3, 3, 3)\<rparr>). inNegativeHalfSpace pl pnt) \<and>
   testInFrustum cubeFrustum \<lparr>getMin = (0, 0, 0), getMax = (3, 3, 3)\<rparr> \<and>
   \<not> list_ex (\<lambda>pl. boxOutsidePlane pl \<lparr>getMin = (0, 0, 0), getMax = (3, 3, 3)\<rparr>)
      (getPlanes cubeFrustum)"
proof -
  let ?far = "\<lparr>getMin = (2, 2, 2), getMax = (3, 3, 3)\<rparr> :: BoundingBox"
  let ?near = "\<lparr>getMin = (0, 0, 0), getMax = (3, 3, 3)\<rparr> :: BoundingBox"
  have far: "\<not> testInFrustum cubeFrustum ?far"
    by (simp add: testInFrustum_def cubeFrustum_def tbPnts_def)
  have near: "testInFrustum cubeFrustum ?near"
    by (simp add: testInFrustum_def cubeFrustum_def tbPnts_def)
  from far testInFrustum_spec [of cubeFrustum ?far]
  have "\<exists>pl \<in> set (getPlanes cubeFrustum). \<forall>pnt \<in> set (tbPnts ?far). inNegativeHalfSpace pl pnt"
    by blast
  moreover from near testInFrustum_spec [of cubeFrustum ?near]
  have "\<not> list_ex (\<lambda>pl. boxOutsidePlane pl ?near) (getPlanes cubeFrustum)"
    unfolding list_ex_iff by blast
  ultimately show ?thesis using far near by blast
qed

subsection \<open>The horizon test\<close>


lemma dot_self_zero: "(dot a a = 0) = (a = (0, 0, 0))"
proof (cases a)
  case (fields a1 a2 a3)
  have "(a1 * a1 + a2 * a2 + a3 * a3 = 0) = (a1 = 0 \<and> a2 = 0 \<and> a3 = 0)"
    using sum_squares_eq_zero_iff [of a1 a2] sum_squares_eq_zero_iff [of "sqrt (a1 * a1 + a2 * a2)" a3]
    by (auto simp: add_nonneg_eq_0_iff)
  then show ?thesis
    by (simp add: fields)
qed

lemma vlength_zero: "(vlength a = 0) = (a = (0, 0, 0))"
  by (simp add: vlength_def dot_self_zero)

lemma vsub_zero: "(vsub p q = (0, 0, 0)) = (p = q)"
  by (cases p; cases q) auto


lemma cornersLoop_at_camera:
  "cornersLoop camPos r (camPos # rest) = cornersLoop camPos r rest"
proof -
  have "vlength (vsub camPos camPos) = 0"
    by (simp add: vlength_zero vsub_zero)
  then show ?thesis by simp
qed




lemma replicate32: "replicate sMaxStackDepth x = x # replicate 31 x"
  by (simp add: sMaxStackDepth_def numeral_eq_Suc)

subsection \<open>The refinement test\<close>

lemma cauchy_schwarz3: "(dot a b)\<^sup>2 \<le> dot a a * dot b b"
proof -
  obtain a1 a2 a3 where a: "a = (a1, a2, a3)" by (cases a) auto
  obtain b1 b2 b3 where b: "b = (b1, b2, b3)" by (cases b) auto
  have "dot a a * dot b b - (dot a b)\<^sup>2 =
      (a1 * b2 - a2 * b1)\<^sup>2 + (a1 * b3 - a3 * b1)\<^sup>2 + (a2 * b3 - a3 * b2)\<^sup>2"
    unfolding a b by (simp add: power2_eq_square algebra_simps)
  moreover have "0 \<le> (a1 * b2 - a2 * b1)\<^sup>2 + (a1 * b3 - a3 * b1)\<^sup>2 + (a2 * b3 - a3 * b2)\<^sup>2"
    by simp
  ultimately show ?thesis by linarith
qed

lemma dot_self_nonneg: "0 \<le> dot a a"
  by (cases a) auto

lemma dot_vdiv: "dot (vdiv a s) (vdiv b t) = dot a b / (s * t)"
  by (cases a; cases b) (simp add: field_simps add_divide_distrib)

lemma abs_dot_le: "\<bar>dot a b\<bar> \<le> vlength a * vlength b"
proof -
  have "\<bar>dot a b\<bar> = sqrt ((dot a b)\<^sup>2)" by simp
  also have "\<dots> \<le> sqrt (dot a a * dot b b)"
    using cauchy_schwarz3 by (simp only: real_sqrt_le_iff)
  also have "\<dots> = vlength a * vlength b"
    by (simp add: vlength_def real_sqrt_mult)
  finally show ?thesis .
qed

lemma vlength_nonneg: "0 \<le> vlength a"
  by (simp add: vlength_def dot_self_nonneg)

lemma dot_normalize_bounds:
  "- 1 \<le> dot (normalize_vec a) (normalize_vec b) \<and> dot (normalize_vec a) (normalize_vec b) \<le> 1"
proof (cases "vlength a * vlength b = 0")
  case True
  then show ?thesis by (auto simp: normalize_vec_def dot_vdiv)
next
  case False
  then have pos: "0 < vlength a * vlength b"
    using vlength_nonneg [of a] vlength_nonneg [of b]
    by (metis less_eq_real_def mult_nonneg_nonneg)
  define q where "q = dot a b / (vlength a * vlength b)"
  have "\<bar>q\<bar> \<le> 1"
    unfolding q_def using abs_dot_le [of a b] pos by (simp add: field_simps)
  then have "- 1 \<le> q \<and> q \<le> 1"
    by linarith
  then show ?thesis by (simp only: normalize_vec_def dot_vdiv q_def)
qed

lemma exact_ops [simp]:
  "vsub_in Exact a b = vsub a b"
  "vadd_in Exact a b = vadd a b"
  "vscale_in Exact s a = vscale s a"
  "dot_in Exact a b = dot a b"
  by (cases a; cases b; simp)+

lemma glm_normalize_exact:
  "glm_normalize Exact a = (if a = (0, 0, 0) then None else Some (normalize_vec a))"
  by (cases a) (simp add: glm_normalize_def normalize_vec_def vlength_def)

lemma std_max_Some: "std_max (Some x) (Some y) = Some (max x y)"
  by (simp add: std_max_def max_def)

lemma angle_step_exact:
  assumes "- 1 \<le> dot d c"
  shows "std_acos Exact (std_min1 (glm_dot Exact (Some d) (Some c))) = Some (arccos (min 1 (dot d c)))"
  using assms by (simp add: std_acos_def std_min1_def glm_dot_def min_def)

lemma maxAngle_exact:
  assumes "camPos \<notin> set pnts" and "c \<noteq> camPos"
  shows "foldl (\<lambda>maxAngle tbDir.
             std_max (std_acos Exact (std_min1 (glm_dot Exact tbDir
               (glm_normalize Exact (vsub_in Exact c camPos))))) maxAngle)
           (Some m0) (map (\<lambda>pnt. glm_normalize Exact (vsub_in Exact pnt camPos)) pnts) =
         Some (Max (insert m0
           ((\<lambda>pnt. arccos (min 1 (dot (normalize_vec (vsub pnt camPos))
                                     (normalize_vec (vsub c camPos))))) ` set pnts)))"
  using assms(1)
proof (induction pnts arbitrary: m0)
  case Nil
  show ?case by simp
next
  case (Cons p rest)
  let ?c = "normalize_vec (vsub c camPos)"
  let ?g = "\<lambda>pnt. arccos (min 1 (dot (normalize_vec (vsub pnt camPos)) ?c))"
  from Cons.prems have p: "vsub p camPos \<noteq> (0, 0, 0)" and rest: "camPos \<notin> set rest"
    by (auto simp: vsub_zero)
  from assms(2) have c: "vsub c camPos \<noteq> (0, 0, 0)"
    by (simp add: vsub_zero)
  have step: "std_max (std_acos Exact (std_min1 (glm_dot Exact
        (glm_normalize Exact (vsub_in Exact p camPos))
        (glm_normalize Exact (vsub_in Exact c camPos))))) (Some m0) = Some (max (?g p) m0)"
    using p c dot_normalize_bounds [of "vsub p camPos" "vsub c camPos"]
    by (simp add: glm_normalize_exact angle_step_exact std_max_Some)
  have "Max (insert (max (?g p) m0) (?g ` set rest)) = Max (insert m0 (?g ` set (p # rest)))"
    by (cases "rest = []") (simp_all add: max.assoc max.commute max.left_commute)
  with Cons.IH [OF rest, of "max (?g p) m0"] step show ?case
    by simp
qed

lemma maxAngleLoop_spec:
  assumes "camPos \<notin> set (tbPnts tb)" and "boxCenter tb \<noteq> camPos"
  shows "maxAngleLoop Exact (map (\<lambda>pnt. glm_normalize Exact (vsub_in Exact pnt camPos)) (tbPnts tb))
           (glm_normalize Exact (vsub_in Exact (boxCenter tb) camPos)) =
         Some (maxAngularSeparation camPos tb)"
proof -
  let ?c = "normalize_vec (vsub (boxCenter tb) camPos)"
  let ?g = "\<lambda>pnt. arccos (min 1 (dot (normalize_vec (vsub pnt camPos)) ?c))"
  have g: "?g pnt = cornerAngle camPos tb pnt" for pnt
  proof -
    have "- 1 \<le> dot (normalize_vec (vsub pnt camPos)) ?c"
      using dot_normalize_bounds [of "vsub pnt camPos" "vsub (boxCenter tb) camPos"] by simp
    then have "max (dot (normalize_vec (vsub pnt camPos)) ?c) (- 1) =
        dot (normalize_vec (vsub pnt camPos)) ?c"
      by (rule max_absorb1)
    then show ?thesis
      by (simp add: cornerAngle_def clamp_def min.commute)
  qed
  have nonneg: "0 \<le> cornerAngle camPos tb pnt" for pnt
    unfolding cornerAngle_def clamp_def by (rule arccos_lbound) auto
  have ne: "set (tbPnts tb) \<noteq> {}"
    using length_tbPnts [of tb] by auto
  then obtain p0 where p0: "p0 \<in> set (tbPnts tb)" by (meson ex_in_conv)
  have "maxAngleLoop Exact (map (\<lambda>pnt. glm_normalize Exact (vsub_in Exact pnt camPos)) (tbPnts tb))
           (glm_normalize Exact (vsub_in Exact (boxCenter tb) camPos)) =
        Some (Max (insert 0 (?g ` set (tbPnts tb))))"
    unfolding maxAngleLoop_def by (rule maxAngle_exact [OF assms])
  also have "?g ` set (tbPnts tb) = cornerAngle camPos tb ` set (tbPnts tb)"
    by (simp only: g)
  also have "Max (insert 0 (cornerAngle camPos tb ` set (tbPnts tb))) =
      max 0 (Max (cornerAngle camPos tb ` set (tbPnts tb)))"
    by (rule Max_insert) (use ne in auto)
  also have "\<dots> = Max (cornerAngle camPos tb ` set (tbPnts tb))"
  proof (rule max_absorb2)
    have "0 \<le> cornerAngle camPos tb p0" by (rule nonneg)
    also have "\<dots> \<le> Max (cornerAngle camPos tb ` set (tbPnts tb))"
      using p0 by (intro Max_ge) auto
    finally show "0 \<le> Max (cornerAngle camPos tb ` set (tbPnts tb))" .
  qed
  finally show ?thesis
    unfolding maxAngularSeparation_def .
qed

text \<open>
  In exact arithmetic, for a state with a DEM node whose camera is at neither a corner nor
  the centre of the box and whose larger opening angle is not zero, \<^verbatim>\<open>testNeedRefine\<close>
  returns true exactly when the minimum level is above the level of the tile or the ratio
  \<open>\<alpha> / fov \<cdot> lodFactor\<close> exceeds 10, where \<open>\<alpha>\<close> is the largest angle between the
  directions from the camera to a corner and to the centre of the box, computed from the
  cosine clamped to \<open>[-1, 1]\<close>. The code bounds the cosine from above only; for exact
  unit vectors that is the same.
\<close>

theorem testNeedRefine_exact:
  assumes "getLODState v (- 1) = Inr k"
    and "mNodeDEM (mStack v ! k) = Some node"
    and "derefRd (mTreeMgrDEM v) (mRdDEM (mStack v ! k)) = Inr rd"
    and "mCamPos (mCullData v) \<notin> set (tbPnts (getBounds rd))"
    and "mCamPos (mCullData v) \<noteq> boxCenter (getBounds rd)"
    and "max (getHorizontalFOV (mFrustumES (mLodData v))) (getVerticalFOV (mFrustumES (mLodData v))) \<noteq> 0"
  shows "testNeedRefine tileId v =
           Inr (mMinLevel (mParams v) > level tileId \<or>
                refinementRatio (mCamPos (mCullData v)) (getBounds rd) (mFrustumES (mLodData v))
                  (mLodFactor (mParams v)) > 10)"
proof -
  have "maxAngleLoop Exact
      (map (\<lambda>pnt. glm_normalize Exact (vsub_in Exact pnt (mCamPos (mCullData v)))) (tbPnts (getBounds rd)))
      (glm_normalize Exact (vsub_in Exact (boxCenter (getBounds rd)) (mCamPos (mCullData v)))) =
    Some (maxAngularSeparation (mCamPos (mCullData v)) (getBounds rd))"
    using assms(4,5) by (intro maxAngleLoop_spec) auto
  with assms(1,2,3,6) show ?thesis
    by (simp add: testNeedRefine_def testNeedRefine_in_def bindE_def Let_def boxCenter_def [symmetric]
        ratioAboveTen_def refinementRatio_def del: exact_ops(1))
qed

theorem testNeedRefine_exact_witness:
  "testNeedRefine \<lparr>level = 0, patchIdx = 0\<rparr>
     (atRoot 0 (idleVisitor unitParams (Some (rootsMgr 0)) None)) = Inr True \<and>
   refinementRatio (0, 0, 0) \<lparr>getMin = (- 1, - 1, 0), getMax = (1, 1, 2)\<rparr> narrowFrustum 1 > 10 \<and>
   mMinLevel unitParams \<le> 0 \<and>
   (0, 0, 0) \<notin> set (tbPnts \<lparr>getMin = (- 1, - 1, 0), getMax = (1, 1, 2)\<rparr>) \<and>
   (0, 0, 0) \<noteq> boxCenter \<lparr>getMin = (- 1, - 1, 0), getMax = (1, 1, 2)\<rparr>"
proof -
  let ?v = "atRoot 0 (idleVisitor unitParams (Some (rootsMgr 0)) None)"
  let ?tb = "\<lparr>getMin = (- 1, - 1, 0), getMax = (1, 1, 2)\<rparr> :: BoundingBox"
  have k: "getLODState ?v (- 1) = Inr 0"
    by (simp add: getLODState_def atRoot_def idleVisitor_def replicate32)
  have n: "mNodeDEM (mStack ?v ! 0) = Some (leafNode \<lparr>level = 0, patchIdx = 0\<rparr>)"
    by (simp add: atRoot_def idleVisitor_def replicate32 rootsMgr_def rootsOnly_def)
  have rd: "derefRd (mTreeMgrDEM ?v) (mRdDEM (mStack ?v ! 0)) = Inr (boxRd 0)"
    by (simp add: atRoot_def idleVisitor_def replicate32 rootsMgr_def rootsOnly_def derefRd_def
        leafNode_def)
  have away: "(0, 0, 0) \<notin> set (tbPnts ?tb)" "(0, 0, 0) \<noteq> boxCenter ?tb"
    by (simp_all add: tbPnts_def boxCenter_def)
  have cam: "mCamPos (mCullData ?v) \<notin> set (tbPnts (getBounds (boxRd 0)))"
    "mCamPos (mCullData ?v) \<noteq> boxCenter (getBounds (boxRd 0))"
    using away by (simp_all add: atRoot_def idleVisitor_def boxRd_def)
  have fov: "max (getHorizontalFOV (mFrustumES (mLodData ?v)))
      (getVerticalFOV (mFrustumES (mLodData ?v))) \<noteq> 0"
    by (simp add: atRoot_def idleVisitor_def narrowFrustum_def)
  have "cornerAngle (0, 0, 0) ?tb (- 1, - 1, 0) = pi / 2"
    by (simp add: cornerAngle_def boxCenter_def normalize_vec_def vlength_def clamp_def)
  moreover have "(- 1, - 1, 0) \<in> set (tbPnts ?tb)"
    by (simp add: tbPnts_def)
  ultimately have "pi / 2 \<le> maxAngularSeparation (0, 0, 0) ?tb"
    unfolding maxAngularSeparation_def by (metis Max_ge List.finite_set finite_imageI imageI)
  then have ratio: "refinementRatio (0, 0, 0) ?tb narrowFrustum 1 > 10"
    using pi_ge_two by (simp add: refinementRatio_def narrowFrustum_def)
  from testNeedRefine_exact [OF k n rd cam fov, of "\<lparr>level = 0, patchIdx = 0\<rparr>"] ratio
  have "testNeedRefine \<lparr>level = 0, patchIdx = 0\<rparr> ?v = Inr True"
    by (simp add: atRoot_def idleVisitor_def boxRd_def unitParams_def)
  with ratio away show ?thesis by (simp add: unitParams_def)
qed

subsection \<open>Rounding in the refinement test\<close>

lemma roundEven_near:
  assumes "\<bar>y - of_int m\<bar> < 1 / 2"
  shows "roundEven y = m"
proof (cases "of_int m \<le> y")
  case True
  with assms have "\<lfloor>y\<rfloor> = m" by linarith
  with assms True show ?thesis by (simp add: roundEven_def Let_def)
next
  case False
  with assms have f: "\<lfloor>y\<rfloor> = m - 1" by linarith
  from assms False have "1 / 2 < y - of_int (m - 1)" by simp
  with f show ?thesis by (simp add: roundEven_def Let_def)
qed

lemma floor_log2:
  assumes "2 powr of_int e \<le> x" and "x < 2 powr (of_int e + 1)"
  shows "\<lfloor>log 2 x\<rfloor> = e"
proof -
  have pos: "0 < x" using assms(1) powr_gt_zero [of 2 "of_int e"] by linarith
  have "of_int e \<le> log 2 x"
    using assms(1) pos by (simp add: le_log_iff)
  moreover have "log 2 x < of_int e + 1"
    using assms(2) pos by (simp add: log_less_iff)
  ultimately show ?thesis by linarith
qed

lemma binary64_eval:
  assumes "2 powr of_int e \<le> \<bar>x\<bar>" and "\<bar>x\<bar> < 2 powr (of_int e + 1)"
    and "\<bar>x / 2 powr (of_int e - 52) - of_int m\<bar> < 1 / 2"
  shows "binary64 x = 2 powr (of_int e - 52) * of_int m"
proof -
  have "x \<noteq> 0" using assms(1) powr_gt_zero [of 2 "of_int e"] by linarith
  moreover have "\<lfloor>log 2 \<bar>x\<bar>\<rfloor> = e" using assms(1,2) by (rule floor_log2)
  ultimately show ?thesis
    using roundEven_near [OF assms(3)] by (simp add: binary64_def Let_def)
qed

lemma binary64_below:
  assumes "1 / 2 ^ n \<le> \<bar>x\<bar>" and "\<bar>x\<bar> < 2 / 2 ^ n"
    and "\<bar>x * 2 ^ (n + 52) - of_int m\<bar> < 1 / 2"
  shows "binary64 x = of_int m / 2 ^ (n + 52)"
proof -
  have a: "(2 :: real) powr of_int (- int n) = 1 / 2 ^ n"
    by (simp add: powr_minus powr_realpow divide_inverse)
  have "(2 :: real) powr (of_int (- int n) + 1) = 2 powr of_int (- int n) * 2 powr 1"
    by (rule powr_add)
  then have b: "(2 :: real) powr (of_int (- int n) + 1) = 2 / 2 ^ n"
    by (simp only: a) simp
  have "(of_int (- int n) :: real) - 52 = - real (n + 52)" by simp
  then have c: "(2 :: real) powr (of_int (- int n) - 52) = 1 / 2 ^ (n + 52)"
    by (simp only: powr_minus powr_realpow divide_inverse)
  show ?thesis
    using binary64_eval [of "- int n" x m] assms
    unfolding a b c by simp
qed

lemma binary64_above:
  assumes "2 ^ n \<le> \<bar>x\<bar>" and "\<bar>x\<bar> < 2 * 2 ^ n" and "n \<le> 52"
    and "\<bar>x * 2 ^ (52 - n) - of_int m\<bar> < 1 / 2"
  shows "binary64 x = of_int m / 2 ^ (52 - n)"
proof -
  have a: "(2 :: real) powr of_int (int n) = 2 ^ n"
    by (simp add: powr_realpow)
  have "(2 :: real) powr (of_int (int n) + 1) = 2 powr of_int (int n) * 2 powr 1"
    by (rule powr_add)
  then have b: "(2 :: real) powr (of_int (int n) + 1) = 2 * 2 ^ n"
    by (simp only: a) simp
  have "(of_int (int n) :: real) - 52 = - real (52 - n)" using assms(3) by simp
  then have c: "(2 :: real) powr (of_int (int n) - 52) = 1 / 2 ^ (52 - n)"
    by (simp only: powr_minus powr_realpow divide_inverse)
  show ?thesis
    using binary64_eval [of "int n" x m] assms(1,2,4)
    unfolding a b c by simp
qed

lemma binary64_0 [simp]: "binary64 0 = 0"
  by (simp add: binary64_def)

lemma binary64_half: "binary64 (1 / 2) = 1 / 2"
  using binary64_below [of 1 "1 / 2" "2 ^ 52"] by simp

lemma binary64_mhalf: "binary64 (- (1 / 2)) = - (1 / 2)"
  using binary64_below [of 1 "- (1 / 2)" "- (2 ^ 52)"] by simp

lemma binary64_1: "binary64 1 = 1"
  using binary64_below [of 0 1 "2 ^ 52"] by simp

lemma binary64_2: "binary64 2 = 2"
  using binary64_above [of 1 2 "2 ^ 52"] by simp

lemma binary64_quarter: "binary64 (1 / 4) = 1 / 4"
  using binary64_below [of 2 "1 / 4" "2 ^ 52"] by simp

lemma binary64_3quarter: "binary64 (3 / 4) = 3 / 4"
  using binary64_below [of 1 "3 / 4" "3 * 2 ^ 51"] by simp


lemma near_from_bounds:
  fixes x d :: real
  assumes "(of_int m - 1 / 2) / d < x" and "x < (of_int m + 1 / 2) / d" and "0 < d"
  shows "\<bar>x * d - of_int m\<bar> < 1 / 2"
proof -
  from assms(1,3) have "of_int m - 1 / 2 < x * d" by (simp add: field_simps)
  moreover from assms(2,3) have "x * d < of_int m + 1 / 2" by (simp add: field_simps)
  ultimately show ?thesis by linarith
qed

lemma binary64_sqrt: "binary64 (sqrt (3 / 4)) = 7800463371553962 / 2 ^ 53"
proof -
  have lo: "(of_int 7800463371553962 - 1 / 2) / 2 ^ 53 < sqrt (3 / 4)"
    by (rule real_less_rsqrt) (simp add: power2_eq_square)
  have hi: "sqrt (3 / 4) < (of_int 7800463371553962 + 1 / 2) / 2 ^ 53"
    by (rule real_less_lsqrt) (simp_all add: power2_eq_square)
  have "\<bar>sqrt (3 / 4) * 2 ^ (1 + 52) - of_int 7800463371553962\<bar> < 1 / 2"
    using near_from_bounds [OF lo hi] by simp
  moreover from lo have "1 / 2 ^ 1 \<le> \<bar>sqrt (3 / 4)\<bar>" by simp
  moreover from hi have "\<bar>sqrt (3 / 4)\<bar> < 2 / 2 ^ 1" by simp
  ultimately show ?thesis
    using binary64_below [of 1 "sqrt (3 / 4)" 7800463371553962] by simp
qed

lemma binary64_inv: "binary64 (1 / (7800463371553962 / 2 ^ 53)) = 5200308914369309 / 2 ^ 52"
  using binary64_below [of 0 "1 / (7800463371553962 / 2 ^ 53)" 5200308914369309] by simp

lemma binary64_comp: "binary64 (5200308914369309 / 2 ^ 52 * (1 / 2)) = 5200308914369309 / 2 ^ 53"
  using binary64_below [of 1 "5200308914369309 / 2 ^ 52 * (1 / 2)" 5200308914369309] by simp

lemma binary64_mcomp: "binary64 (5200308914369309 / 2 ^ 52 * - (1 / 2)) = - (5200308914369309 / 2 ^ 53)"
  using binary64_below [of 1 "5200308914369309 / 2 ^ 52 * - (1 / 2)" "- 5200308914369309"] by simp

lemma binary64_prod:
  "binary64 (- (5200308914369309 / 2 ^ 53) * (5200308914369309 / 2 ^ 53)) = - (6004799503160663 / 2 ^ 54)"
  using binary64_below [of 2 "- (5200308914369309 / 2 ^ 53) * (5200308914369309 / 2 ^ 53)" "- 6004799503160663"]
  by simp

lemma binary64_sum1:
  "binary64 (- (6004799503160663 / 2 ^ 54) + - (6004799503160663 / 2 ^ 54)) = - (6004799503160663 / 2 ^ 53)"
  using binary64_below [of 1 "- (6004799503160663 / 2 ^ 54) + - (6004799503160663 / 2 ^ 54)" "- 6004799503160663"]
  by simp

lemma binary64_sum2:
  "binary64 (- (6004799503160663 / 2 ^ 53) + - (6004799503160663 / 2 ^ 54)) = - (4503599627370497 / 2 ^ 52)"
  using binary64_below [of 0 "- (6004799503160663 / 2 ^ 53) + - (6004799503160663 / 2 ^ 54)" "- 4503599627370497"]
  by simp

lemma insideBox_state:
  "getLODState insideBox (- 1) = Inr 0"
  "mNodeDEM (mStack insideBox ! 0) = Some (leafNode \<lparr>level = 0, patchIdx = 0\<rparr>)"
  "derefRd (mTreeMgrDEM insideBox) (mRdDEM (mStack insideBox ! 0)) = Inr (boxRd 0)"
  "mCamPos (mCullData insideBox) = (- (1 / 2), 1 / 2, 3 / 2)"
  "mFrustumES (mLodData insideBox) = \<lparr>getPlanes = [], getHorizontalFOV = 1 / 16, getVerticalFOV = 1 / 32\<rparr>"
  "mParams insideBox = unitParams"
  by (simp_all add: insideBox_def getLODState_def atRoot_def idleVisitor_def replicate32 rootsMgr_def
      rootsOnly_def derefRd_def leafNode_def)

lemma normalize_binary64:
  "glm_normalize Binary64 (- (1 / 2), 1 / 2, 1 / 2) =
     Some (- (5200308914369309 / 2 ^ 53), 5200308914369309 / 2 ^ 53, 5200308914369309 / 2 ^ 53)"
  "glm_normalize Binary64 (1 / 2, - (1 / 2), - (1 / 2)) =
     Some (5200308914369309 / 2 ^ 53, - (5200308914369309 / 2 ^ 53), - (5200308914369309 / 2 ^ 53))"
proof -
  have d: "dot_in Binary64 (- (1 / 2), 1 / 2, 1 / 2) (- (1 / 2), 1 / 2, 1 / 2) = 3 / 4"
    "dot_in Binary64 (1 / 2, - (1 / 2), - (1 / 2)) (1 / 2, - (1 / 2), - (1 / 2)) = 3 / 4"
    by (simp_all add: binary64_quarter binary64_half binary64_3quarter)
  have n: "binary64 (1 / binary64 (sqrt (3 / 4))) = 5200308914369309 / 2 ^ 52"
    by (simp only: binary64_sqrt binary64_inv)
  show "glm_normalize Binary64 (- (1 / 2), 1 / 2, 1 / 2) =
     Some (- (5200308914369309 / 2 ^ 53), 5200308914369309 / 2 ^ 53, 5200308914369309 / 2 ^ 53)"
    unfolding glm_normalize_def d rnd.simps n vscale_in.simps
    by (simp only: binary64_comp binary64_mcomp) simp
  show "glm_normalize Binary64 (1 / 2, - (1 / 2), - (1 / 2)) =
     Some (5200308914369309 / 2 ^ 53, - (5200308914369309 / 2 ^ 53), - (5200308914369309 / 2 ^ 53))"
    unfolding glm_normalize_def d rnd.simps n vscale_in.simps
    by (simp only: binary64_comp binary64_mcomp) simp
qed

lemma cosine_binary64:
  "dot_in Binary64
     (- (5200308914369309 / 2 ^ 53), 5200308914369309 / 2 ^ 53, 5200308914369309 / 2 ^ 53)
     (5200308914369309 / 2 ^ 53, - (5200308914369309 / 2 ^ 53), - (5200308914369309 / 2 ^ 53)) =
   - (4503599627370497 / 2 ^ 52)"
proof -
  have p: "5200308914369309 / 2 ^ 53 * - (5200308914369309 / 2 ^ 53) =
      - (5200308914369309 / 2 ^ 53) * (5200308914369309 / 2 ^ 53 :: real)"
    by simp
  show ?thesis
    unfolding dot_in.simps rnd.simps p
    by (simp only: binary64_prod binary64_sum1 binary64_sum2)
qed

lemma glm_dot_Some: "glm_dot ar (Some a) (Some b) = Some (dot_in ar a b)"
  by (simp add: glm_dot_def)

lemma std_max_NaN: "std_max None b = None"
  by (simp add: std_max_def)

text \<open>
  C2. For a visited node with a DEM node in the current state, the claim has
  \<^verbatim>\<open>testNeedRefine\<close> return true exactly when the minimum level is above the level of
  the tile or the ratio \<open>\<alpha> / fov \<cdot> lodFactor\<close> exceeds 10, with the cosine of each angle
  clamped to \<open>[-1, 1]\<close>. The code bounds the cosine from above only. With the box from
  \<open>(-1, -1, 0)\<close> to \<open>(1, 1, 2)\<close>, the camera at \<open>(-1/2, 1/2, 3/2)\<close>, opening angles
  \<open>1/16\<close> and \<open>1/32\<close>, factor 1 and minimum level 0, the direction to the last corner
  is opposite to the direction to the centre, the cosine computed in double arithmetic is
  \<open>- (1 + 1 / 2 ^ 52)\<close>, \<^verbatim>\<open>std::acos\<close> returns NaN and the test returns false, while the
  angle is \<open>\<pi>\<close> and the ratio of the claim is above 10. The camera is at neither a corner
  nor the centre of the box.
\<close>

theorem testNeedRefine_lower_clamp:
  "testNeedRefine_in Binary64 \<lparr>level = 0, patchIdx = 0\<rparr> insideBox = Inr False \<and>
   10 < refinementRatio (mCamPos (mCullData insideBox)) (getBounds (boxRd 0))
          (mFrustumES (mLodData insideBox)) (mLodFactor (mParams insideBox)) \<and>
   mCamPos (mCullData insideBox) \<notin> set (tbPnts (getBounds (boxRd 0))) \<and>
   mCamPos (mCullData insideBox) \<noteq> boxCenter (getBounds (boxRd 0))"
proof -
  let ?cam = "(- (1 / 2), 1 / 2, 3 / 2) :: dvec3"
  let ?tb = "getBounds (boxRd 0)"
  let ?front = "[(- 1, - 1, 0), (1, - 1, 0), (1, - 1, 2), (- 1, - 1, 2),
                 (- 1, 1, 0), (1, 1, 0), (1, 1, 2)] :: dvec3 list"
  have pts: "tbPnts ?tb = ?front @ [(- 1, 1, 2)]"
    by (simp add: tbPnts_def boxRd_def)
  have centre: "vscale_in Binary64 (1 / 2) (vadd_in Binary64 (getMin ?tb) (getMax ?tb)) = (0, 0, 1)"
    by (simp add: boxRd_def binary64_2 binary64_1)
  have toCentre: "vsub_in Binary64 (0, 0, 1) ?cam = (1 / 2, - (1 / 2), - (1 / 2))"
    by (simp add: binary64_half binary64_mhalf)
  have toCorner: "vsub_in Binary64 (- 1, 1, 2) ?cam = (- (1 / 2), 1 / 2, 1 / 2)"
    by (simp add: binary64_half binary64_mhalf)
  have last: "std_acos Binary64 (std_min1 (glm_dot Binary64
      (glm_normalize Binary64 (vsub_in Binary64 (- 1, 1, 2) ?cam))
      (glm_normalize Binary64 (vsub_in Binary64 (0, 0, 1) ?cam)))) = None"
    unfolding toCentre toCorner normalize_binary64 glm_dot_Some cosine_binary64
    by (simp add: std_min1_def std_acos_def)
  have loop: "maxAngleLoop Binary64 (map (\<lambda>pnt. glm_normalize Binary64 (vsub_in Binary64 pnt ?cam)) (tbPnts ?tb))
      (glm_normalize Binary64 (vsub_in Binary64 (0, 0, 1) ?cam)) = None"
    unfolding maxAngleLoop_def pts map_append foldl_append
    by (simp only: list.map foldl.simps last std_max_NaN)
  have code: "testNeedRefine_in Binary64 \<lparr>level = 0, patchIdx = 0\<rparr> insideBox = Inr False"
    by (simp add: testNeedRefine_in_def insideBox_state bindE_def Let_def centre loop
        ratioAboveTen_def unitParams_def del: vsub_in.simps vscale_in.simps vadd_in.simps)
  have "cornerAngle ?cam ?tb (- 1, 1, 2) = pi"
    by (simp add: cornerAngle_def boxCenter_def boxRd_def normalize_vec_def vlength_def clamp_def)
  moreover have "(- 1, 1, 2) \<in> set (tbPnts ?tb)"
    by (simp add: pts)
  ultimately have "pi \<le> maxAngularSeparation ?cam ?tb"
    unfolding maxAngularSeparation_def by (metis Max_ge List.finite_set finite_imageI imageI)
  then have claim: "10 < refinementRatio ?cam ?tb
      \<lparr>getPlanes = [], getHorizontalFOV = 1 / 16, getVerticalFOV = 1 / 32\<rparr> (mLodFactor unitParams)"
    using pi_ge_two by (simp add: refinementRatio_def unitParams_def)
  have away: "?cam \<notin> set (tbPnts ?tb)" "?cam \<noteq> boxCenter ?tb"
    by (simp_all add: tbPnts_def boxRd_def boxCenter_def)
  from code claim away show ?thesis
    by (simp only: insideBox_state) simp
qed

subsection \<open>Pre-traversal\<close>

lemma pushLoad_frame [simp]:
  "mLodData (pushLoad ch t v) = mLodData v"
  "mCullData (pushLoad ch t v) = mCullData v"
  "mRenderDEM (pushLoad ch t v) = mRenderDEM v"
  "mRenderIMG (pushLoad ch t v) = mRenderIMG v"
  "mTreeDEM (pushLoad ch t v) = mTreeDEM v"
  "mTreeIMG (pushLoad ch t v) = mTreeIMG v"
  "mTreeMgrDEM (pushLoad ch t v) = mTreeMgrDEM v"
  "mTreeMgrIMG (pushLoad ch t v) = mTreeMgrIMG v"
  "mParams (pushLoad ch t v) = mParams v"
  "mStack (pushLoad ch t v) = mStack v"
  "mStackTop (pushLoad ch t v) = mStackTop v"
  "mFrameCount (pushLoad ch t v) = mFrameCount v"
  by (cases ch; simp)+

lemma mTree_pushLoad [simp]: "mTree ch (pushLoad ch' t v) = mTree ch v"
  by (cases ch; cases ch'; simp)

lemma mTreeMgr_pushLoad [simp]: "mTreeMgr ch (pushLoad ch' t v) = mTreeMgr ch v"
  by (cases ch; cases ch'; simp)

lemma mLoad_pushLoad [simp]:
  "mLoad ch (pushLoad ch' t v) = (if ch = ch' then mLoad ch v @ [t] else mLoad ch v)"
  by (cases ch; cases ch'; simp)

lemma mRender_pushLoad [simp]: "mRender ch (pushLoad ch' t v) = mRender ch v"
  by (cases ch; cases ch'; simp)

lemma checkRoot_frame [simp]:
  "mLodData (snd (checkRoot ch i rv)) = mLodData (snd rv)"
  "mCullData (snd (checkRoot ch i rv)) = mCullData (snd rv)"
  "mRenderDEM (snd (checkRoot ch i rv)) = mRenderDEM (snd rv)"
  "mRenderIMG (snd (checkRoot ch i rv)) = mRenderIMG (snd rv)"
  "mTree ch' (snd (checkRoot ch i rv)) = mTree ch' (snd rv)"
  "mTreeMgr ch' (snd (checkRoot ch i rv)) = mTreeMgr ch' (snd rv)"
  "mParams (snd (checkRoot ch i rv)) = mParams (snd rv)"
  "mStack (snd (checkRoot ch i rv)) = mStack (snd rv)"
  "mStackTop (snd (checkRoot ch i rv)) = mStackTop (snd rv)"
  "mFrameCount (snd (checkRoot ch i rv)) = mFrameCount (snd rv)"
  by (simp_all add: checkRoot_def split: option.splits)

lemma rootsLoop_frame:
  "mLodData (snd (rootsLoop is rv)) = mLodData (snd rv) \<and>
   mCullData (snd (rootsLoop is rv)) = mCullData (snd rv) \<and>
   mRenderDEM (snd (rootsLoop is rv)) = mRenderDEM (snd rv) \<and>
   mRenderIMG (snd (rootsLoop is rv)) = mRenderIMG (snd rv) \<and>
   mTree ch (snd (rootsLoop is rv)) = mTree ch (snd rv) \<and>
   mTreeMgr ch (snd (rootsLoop is rv)) = mTreeMgr ch (snd rv) \<and>
   mParams (snd (rootsLoop is rv)) = mParams (snd rv) \<and>
   mStack (snd (rootsLoop is rv)) = mStack (snd rv) \<and>
   mStackTop (snd (rootsLoop is rv)) = mStackTop (snd rv) \<and>
   mFrameCount (snd (rootsLoop is rv)) = mFrameCount (snd rv)"
  by (induction "is" arbitrary: rv) simp_all

lemma checkRoot_load:
  "mLoad ch' (snd (checkRoot ch i rv)) =
     (if ch' = ch then mLoad ch' (snd rv) @ missingRoots (mTree ch (snd rv)) [i] else mLoad ch' (snd rv))"
  by (simp add: checkRoot_def missingRoots_def split: option.splits)

lemma checkRoot_result:
  "fst (checkRoot ch i rv) = (fst rv \<and> missingRoots (mTree ch (snd rv)) [i] = [])"
  by (simp add: checkRoot_def missingRoots_def split: option.splits)

lemma missingRoots_Cons:
  "missingRoots tree (i # is) = missingRoots tree [i] @ missingRoots tree is"
  by (simp add: missingRoots_def split: option.splits)

lemma rootsLoop_load:
  "mLoad ch (snd (rootsLoop is rv)) = mLoad ch (snd rv) @ missingRoots (mTree ch (snd rv)) is"
proof (induction "is" arbitrary: rv)
  case Nil
  show ?case by (simp add: missingRoots_def split: option.splits)
next
  case (Cons i rest)
  show ?case
  proof -
    let ?rv = "checkRoot IMG i (checkRoot DEM i rv)"
    have "mLoad ch (snd (rootsLoop (i # rest) rv)) =
        mLoad ch (snd ?rv) @ missingRoots (mTree ch (snd ?rv)) rest"
      by (simp only: rootsLoop.simps Cons)
    also have "mLoad ch (snd ?rv) = mLoad ch (snd rv) @ missingRoots (mTree ch (snd rv)) [i]"
      by (cases ch) (simp_all add: checkRoot_load)
    also have "mTree ch (snd ?rv) = mTree ch (snd rv)"
      by simp
    finally show ?thesis
      by (simp add: missingRoots_Cons [of _ i rest])
  qed
qed

lemma rootsLoop_result:
  "fst (rootsLoop is rv) =
     (fst rv \<and> missingRoots (mTree DEM (snd rv)) is = [] \<and> missingRoots (mTree IMG (snd rv)) is = [])"
proof (induction "is" arbitrary: rv)
  case Nil
  show ?case by (simp add: missingRoots_def split: option.splits)
next
  case (Cons i rest)
  show ?case
    by (simp add: Cons checkRoot_result missingRoots_Cons [of _ i rest]) blast
qed

lemma preTraverse_lists:
  "mLoad ch (snd (preTraverse ext v)) = missingRoots (mTree ch v) [0..<12] \<and>
   mRenderDEM (snd (preTraverse ext v)) = [] \<and>
   mRenderIMG (snd (preTraverse ext v)) = [] \<and>
   fst (preTraverse ext v) =
     (missingRoots (mTreeDEM v) [0..<12] = [] \<and> missingRoots (mTreeIMG v) [0..<12] = [])"
  by (cases ch)
     (simp_all add: preTraverse_def rootsLoop_frame [where ch = DEM] rootsLoop_load rootsLoop_result
        sNumRoots_def Let_def split: prod.splits)

lemma missingRoots_empty:
  "missingRoots (Some (\<lambda>i. None)) is = map (\<lambda>i. \<lparr>level = 0, patchIdx = int i\<rparr>) is"
  by (simp add: missingRoots_def getRoot_def)

text \<open>
  C7. Pre-traversal requests, for each attached tree, the level-0 ids of exactly its missing
  roots, and returns false exactly when some attached tree misses a root; the render lists are
  empty after it, and a frame whose pre-traversal returns false ends there. In particular,
  with both channels attached to empty trees, all twelve root ids are in both load lists, the
  result is false and the render lists stay empty for the frame.
\<close>

theorem preTraverse_roots:
  "mLoadDEM (snd (preTraverse ext v)) = missingRoots (mTreeDEM v) [0..<12] \<and>
   mLoadIMG (snd (preTraverse ext v)) = missingRoots (mTreeIMG v) [0..<12] \<and>
   fst (preTraverse ext v) =
     (missingRoots (mTreeDEM v) [0..<12] = [] \<and> missingRoots (mTreeIMG v) [0..<12] = []) \<and>
   mRenderDEM (snd (preTraverse ext v)) = [] \<and>
   mRenderIMG (snd (preTraverse ext v)) = [] \<and>
   (\<not> fst (preTraverse ext v) \<longrightarrow> visit ext v = Inr (snd (preTraverse ext v))) \<and>
   (mTreeDEM v = Some (\<lambda>i. None) \<and> mTreeIMG v = Some (\<lambda>i. None) \<longrightarrow>
      \<not> fst (preTraverse ext v) \<and>
      mLoadDEM (snd (preTraverse ext v)) = map (\<lambda>i. \<lparr>level = 0, patchIdx = int i\<rparr>) [0..<12] \<and>
      mLoadIMG (snd (preTraverse ext v)) = map (\<lambda>i. \<lparr>level = 0, patchIdx = int i\<rparr>) [0..<12] \<and>
      visit ext v = Inr (snd (preTraverse ext v)))"
proof -
  have v: "\<not> fst (preTraverse ext v) \<Longrightarrow> visit ext v = Inr (snd (preTraverse ext v))"
    by (cases "preTraverse ext v") (simp add: visit_def)
  have ne: "map (\<lambda>i. \<lparr>level = 0, patchIdx = int i\<rparr>) [0..<12] \<noteq> []"
    by simp
  show ?thesis
    using preTraverse_lists [of DEM ext v] preTraverse_lists [of IMG ext v] v ne
    by (auto simp: missingRoots_empty simp del: upt_Suc map_eq_conv)
qed

theorem preTraverse_roots_witness:
  "visit columnExt (idleVisitor unitParams (Some emptyMgr) (Some emptyMgr)) =
     Inr (snd (preTraverse columnExt (idleVisitor unitParams (Some emptyMgr) (Some emptyMgr)))) \<and>
   \<not> fst (preTraverse columnExt (idleVisitor unitParams (Some emptyMgr) (Some emptyMgr))) \<and>
   mLoadDEM (snd (preTraverse columnExt (idleVisitor unitParams (Some emptyMgr) (Some emptyMgr)))) =
     [\<lparr>level = 0, patchIdx = 0\<rparr>, \<lparr>level = 0, patchIdx = 1\<rparr>, \<lparr>level = 0, patchIdx = 2\<rparr>,
      \<lparr>level = 0, patchIdx = 3\<rparr>, \<lparr>level = 0, patchIdx = 4\<rparr>, \<lparr>level = 0, patchIdx = 5\<rparr>,
      \<lparr>level = 0, patchIdx = 6\<rparr>, \<lparr>level = 0, patchIdx = 7\<rparr>, \<lparr>level = 0, patchIdx = 8\<rparr>,
      \<lparr>level = 0, patchIdx = 9\<rparr>, \<lparr>level = 0, patchIdx = 10\<rparr>, \<lparr>level = 0, patchIdx = 11\<rparr>] \<and>
   mLoadIMG (snd (preTraverse columnExt (idleVisitor unitParams (Some emptyMgr) (Some emptyMgr)))) =
     mLoadDEM (snd (preTraverse columnExt (idleVisitor unitParams (Some emptyMgr) (Some emptyMgr)))) \<and>
   mRenderDEM (snd (preTraverse columnExt (idleVisitor unitParams (Some emptyMgr) (Some emptyMgr)))) = [] \<and>
   mRenderIMG (snd (preTraverse columnExt (idleVisitor unitParams (Some emptyMgr) (Some emptyMgr)))) = [] \<and>
   fst (preTraverse columnExt (idleVisitor unitParams (Some (rootsMgr 0)) None)) \<and>
   mLoadDEM (snd (preTraverse columnExt (idleVisitor unitParams (Some (rootsMgr 0)) None))) = []"
proof -
  let ?v = "idleVisitor unitParams (Some emptyMgr) (Some emptyMgr)"
  let ?w = "idleVisitor unitParams (Some (rootsMgr 0)) None"
  have t: "mTreeDEM ?v = Some (\<lambda>i. None) \<and> mTreeIMG ?v = Some (\<lambda>i. None)"
    by (simp add: idleVisitor_def emptyMgr_def)
  have upt12: "[0..<12] = [0, 1, 2, 3, 4, 5, 6, 7, 8, 9, 10, 11]"
    by (simp add: upt_rec [of _ "numeral n" for n] upt_rec [of 0])
  have w: "missingRoots (mTreeDEM ?w) [0..<12] = [] \<and> missingRoots (mTreeIMG ?w) [0..<12] = []"
    by (simp add: idleVisitor_def rootsMgr_def missingRoots_def rootsOnly_def getRoot_def)
  show ?thesis
    using preTraverse_roots [of columnExt ?v] preTraverse_roots [of columnExt ?w] t w
    by (simp add: upt12 missingRoots_empty)
qed

text \<open>
  C8. With \<^verbatim>\<open>mUpdateLOD\<close> false, pre-traversal leaves the derived LOD data (stored
  matrices, eye-space frustum, viewport) as they were; with \<^verbatim>\<open>mUpdateCulling\<close> false, it
  leaves the derived culling data (model-space frustum, normal matrix, camera position) as
  they were; whatever matrices and viewport have been set since.
\<close>

theorem preTraverse_frozen:
  "(\<not> mUpdateLOD v \<longrightarrow>
      mLodData (snd (preTraverse ext (setViewport vp (setProjection matP (setModelview matVM v))))) =
      mLodData v) \<and>
   (\<not> mUpdateCulling v \<longrightarrow>
      mCullData (snd (preTraverse ext (setViewport vp (setProjection matP (setModelview matVM v))))) =
      mCullData v)"
  by (simp add: preTraverse_def rootsLoop_frame [where ch = DEM] setViewport_def setProjection_def
      setModelview_def Let_def split: prod.splits)

theorem preTraverse_frozen_witness:
  "mLodData (snd (preTraverse columnExt
      (moveCamera ((idleVisitor unitParams None None)\<lparr>mUpdateLOD := False\<rparr>)))) =
     mLodData (idleVisitor unitParams None None) \<and>
   mCullData (snd (preTraverse columnExt
      (moveCamera ((idleVisitor unitParams None None)\<lparr>mUpdateCulling := False\<rparr>)))) =
     mCullData (idleVisitor unitParams None None) \<and>
   mCamPos (mCullData (snd (preTraverse columnExt
      (moveCamera ((idleVisitor unitParams None None)\<lparr>mUpdateLOD := False\<rparr>))))) = (5, 6, 7) \<and>
   LODData.mMatP (mLodData (snd (preTraverse columnExt
      (moveCamera ((idleVisitor unitParams None None)\<lparr>mUpdateCulling := False\<rparr>))))) = oneMat"
proof -
  let ?v = "idleVisitor unitParams None None"
  have a: "\<not> mUpdateLOD (?v\<lparr>mUpdateLOD := False\<rparr>)" by simp
  have b: "\<not> mUpdateCulling (?v\<lparr>mUpdateCulling := False\<rparr>)" by simp
  have c: "mLodData (?v\<lparr>mUpdateLOD := False\<rparr>) = mLodData ?v"
    "mCullData (?v\<lparr>mUpdateCulling := False\<rparr>) = mCullData ?v" by simp_all
  have d: "mCamPos (mCullData (snd (preTraverse columnExt
      (moveCamera (?v\<lparr>mUpdateLOD := False\<rparr>))))) = (5, 6, 7)"
    by (simp add: preTraverse_def rootsLoop_frame [where ch = DEM] setViewport_def setProjection_def
        setModelview_def Let_def idleVisitor_def columnExt_def oneMat_def moveCamera_def)
  have e: "LODData.mMatP (mLodData (snd (preTraverse columnExt
      (moveCamera (?v\<lparr>mUpdateCulling := False\<rparr>))))) = oneMat"
    by (simp add: preTraverse_def rootsLoop_frame [where ch = DEM] setViewport_def setProjection_def
        setModelview_def Let_def idleVisitor_def columnExt_def moveCamera_def split: prod.splits)
  show ?thesis
    using preTraverse_frozen [of "?v\<lparr>mUpdateLOD := False\<rparr>" columnExt "(0, 0, 800, 600)" oneMat oneMat]
      preTraverse_frozen [of "?v\<lparr>mUpdateCulling := False\<rparr>" columnExt "(0, 0, 800, 600)" oneMat oneMat]
      a b c d e
    by (simp add: moveCamera_def)
qed

subsection \<open>The planet\<close>

lemma flag_set: "f \<noteq> 0 \<Longrightarrow> ((w OR f) AND f) \<noteq> (0 :: 32 word)"
  by (simp add: bit.conj_disj_distrib2)

lemma flag_clear: "((w AND NOT f) AND f) = (0 :: 32 word)"
  by (simp add: and.assoc)

text \<open>
  C9. \<^verbatim>\<open>setRadii\<close> and \<^verbatim>\<open>setHeightScale\<close> store their argument and set the
  tile-bounds-invalid flag. \<^verbatim>\<open>updateTileBounds\<close> runs the bounds visitor on the DEM
  manager and clears the flag when the flag is set, and changes nothing, bounding boxes
  included, when it is clear.
\<close>

theorem bounds_flag:
  assumes "sFlagTileBoundsInvalid \<noteq> 0"
  shows
    "mRadii (mParams_P (setRadii sFlagTileBoundsInvalid radii p)) = radii \<and>
     tileBoundsInvalid sFlagTileBoundsInvalid (setRadii sFlagTileBoundsInvalid radii p) \<and>
     mHeightScale (mParams_P (setHeightScale sFlagTileBoundsInvalid scale p)) = scale \<and>
     tileBoundsInvalid sFlagTileBoundsInvalid (setHeightScale sFlagTileBoundsInvalid scale p) \<and>
     (tileBoundsInvalid sFlagTileBoundsInvalid p \<longrightarrow>
        mTreeMgrDEM_P (updateTileBounds sFlagTileBoundsInvalid ubVisit p) =
          ubVisit (mParams_P p) (mTreeMgrDEM_P p) \<and>
        \<not> tileBoundsInvalid sFlagTileBoundsInvalid (updateTileBounds sFlagTileBoundsInvalid ubVisit p)) \<and>
     (\<not> tileBoundsInvalid sFlagTileBoundsInvalid p \<longrightarrow>
        updateTileBounds sFlagTileBoundsInvalid ubVisit p = p \<and>
        boundsOf (mTreeMgrDEM_P (updateTileBounds sFlagTileBoundsInvalid ubVisit p)) =
          boundsOf (mTreeMgrDEM_P p))"
  using assms
  by (simp add: setRadii_def setHeightScale_def updateTileBounds_def tileBoundsInvalid_def
      flag_set flag_clear)

theorem bounds_flag_witness:
  "tileBoundsInvalid 1 (setRadii 1 (2, 2, 2) newPlanet) \<and>
   mRadii (mParams_P (setRadii 1 (2, 2, 2) newPlanet)) = (2, 2, 2) \<and>
   tileBoundsInvalid 1 (setHeightScale 1 3 newPlanet) \<and>
   \<not> tileBoundsInvalid 1 (updateTileBounds 1 boxFromRadii (setRadii 1 (2, 2, 2) newPlanet)) \<and>
   \<not> tileBoundsInvalid 1 newPlanet \<and>
   updateTileBounds 1 boxFromRadii newPlanet = newPlanet"
proof -
  have f: "(1 :: 32 word) \<noteq> 0" by simp
  have clear: "\<not> tileBoundsInvalid 1 newPlanet"
    by (simp add: tileBoundsInvalid_def newPlanet_def)
  have set: "tileBoundsInvalid 1 (setRadii 1 (2, 2, 2) newPlanet)"
    using bounds_flag [OF f, of "(2, 2, 2)" newPlanet] by simp
  show ?thesis
    using bounds_flag [OF f, of "(2, 2, 2)" newPlanet 3 boxFromRadii]
      bounds_flag [OF f, of "(2, 2, 2)" "setRadii 1 (2, 2, 2) newPlanet" 3 boxFromRadii] clear set
    by simp
qed

text \<open>
  C10. \<^verbatim>\<open>setDEMSource\<close> and \<^verbatim>\<open>setIMGSource\<close> with the source that is attached
  already change nothing: no call of \<^verbatim>\<open>init\<close> or \<^verbatim>\<open>fini\<close>, the manager keeps its
  source, the visitor and the renderer keep their managers. Hence two calls in a row with the
  same argument are one.
\<close>

theorem setSource_same:
  "(mSrcDEM p = srcDEM \<longrightarrow> setDEMSource srcDEM p = p) \<and>
   (mSrcIMG p = srcIMG \<longrightarrow> setIMGSource srcIMG p = p) \<and>
   setDEMSource srcDEM (setDEMSource srcDEM p) = setDEMSource srcDEM p \<and>
   setIMGSource srcIMG (setIMGSource srcIMG p) = setIMGSource srcIMG p"
proof -
  have d: "mSrcDEM (setDEMSource srcDEM p) = srcDEM"
    by (simp add: setDEMSource_def Let_def split: option.splits)
  have i: "mSrcIMG (setIMGSource srcIMG p) = srcIMG"
    by (simp add: setIMGSource_def Let_def split: option.splits)
  have "setDEMSource srcDEM (setDEMSource srcDEM p) = setDEMSource srcDEM p"
    using d by (subst setDEMSource_def) simp
  moreover have "setIMGSource srcIMG (setIMGSource srcIMG p) = setIMGSource srcIMG p"
    using i by (subst setIMGSource_def) simp
  ultimately show ?thesis
    by (simp add: setDEMSource_def setIMGSource_def)
qed

theorem setSource_same_witness:
  "mSourceCalls (setDEMSource (Some 16) newPlanet) = [CallInit 16] \<and>
   setDEMSource (Some 16) (setDEMSource (Some 16) newPlanet) = setDEMSource (Some 16) newPlanet \<and>
   mSourceCalls (setDEMSource (Some 16) (setDEMSource (Some 16) newPlanet)) = [CallInit 16] \<and>
   mSourceCalls (setDEMSource (Some 32) (setDEMSource (Some 16) newPlanet)) =
     [CallInit 16, CallFini 16, CallInit 32] \<and>
   mSource (mTreeMgrDEM_P (setDEMSource (Some 16) (setDEMSource (Some 16) newPlanet))) = Some 16 \<and>
   mTreeMgrDEM (mLodVisitor (setDEMSource (Some 16) (setDEMSource (Some 16) newPlanet))) =
     Some AddrTreeMgrDEM \<and>
   mTreeMgrDEM_R (mRenderer (setDEMSource (Some 16) (setDEMSource (Some 16) newPlanet))) =
     Some AddrTreeMgrDEM \<and>
   mSourceCalls (setIMGSource (Some 32) (setIMGSource (Some 32) newPlanet)) = [CallInit 32] \<and>
   setDEMSource None newPlanet = newPlanet"
proof -
  let ?p = "setDEMSource (Some 16) newPlanet"
  have src: "mSrcDEM ?p = Some 16"
    by (simp add: setDEMSource_def newPlanet_def)
  have none: "mSrcDEM newPlanet = None"
    by (simp add: newPlanet_def)
  have same: "setDEMSource (Some 16) ?p = ?p"
    using setSource_same [of ?p "Some 16"] src by simp
  have same0: "setDEMSource None newPlanet = newPlanet"
    using setSource_same [of newPlanet None] none by simp
  have img: "setIMGSource (Some 32) (setIMGSource (Some 32) newPlanet) = setIMGSource (Some 32) newPlanet"
    using setSource_same [of newPlanet None "Some 32"] by simp
  have calls: "mSourceCalls ?p = [CallInit 16]"
    by (simp add: setDEMSource_def newPlanet_def)
  have calls2: "mSourceCalls (setDEMSource (Some 32) ?p) = [CallInit 16, CallFini 16, CallInit 32]"
    by (simp add: setDEMSource_def newPlanet_def)
  have rest: "mSource (mTreeMgrDEM_P ?p) = Some 16"
      "mTreeMgrDEM (mLodVisitor ?p) = Some AddrTreeMgrDEM"
      "mTreeMgrDEM_R (mRenderer ?p) = Some AddrTreeMgrDEM"
      "mSourceCalls (setIMGSource (Some 32) newPlanet) = [CallInit 32]"
    by (simp_all add: setDEMSource_def setIMGSource_def newPlanet_def setSource_def emptyMgr_def
        setTreeManagerDEM_def detachedVisitor_def Let_def)
  show ?thesis
    by (simp add: same same0 img calls calls2 rest)
qed

subsection \<open>Reading and writing through the channel of a visitor\<close>

lemma writeTreeMgr_frame [simp]:
  "mLodData (writeTreeMgr ch m v) = mLodData v"
  "mCullData (writeTreeMgr ch m v) = mCullData v"
  "mRenderDEM (writeTreeMgr ch m v) = mRenderDEM v"
  "mRenderIMG (writeTreeMgr ch m v) = mRenderIMG v"
  "mLoadDEM (writeTreeMgr ch m v) = mLoadDEM v"
  "mLoadIMG (writeTreeMgr ch m v) = mLoadIMG v"
  "mTreeDEM (writeTreeMgr ch m v) = mTreeDEM v"
  "mTreeIMG (writeTreeMgr ch m v) = mTreeIMG v"
  "mParams (writeTreeMgr ch m v) = mParams v"
  "mStack (writeTreeMgr ch m v) = mStack v"
  "mStackTop (writeTreeMgr ch m v) = mStackTop v"
  "mFrameCount (writeTreeMgr ch m v) = mFrameCount v"
  by (cases ch; simp)+

lemma mTreeMgr_writeTreeMgr [simp]:
  "mTreeMgr ch (writeTreeMgr ch' m v) = (if ch = ch' then Some m else mTreeMgr ch v)"
  by (cases ch; cases ch'; simp)

lemma mLoad_writeTreeMgr [simp]: "mLoad ch (writeTreeMgr ch' m v) = mLoad ch v"
  by (cases ch; simp)

lemma mTree_writeTreeMgr [simp]: "mTree ch (writeTreeMgr ch' m v) = mTree ch v"
  by (cases ch; simp)

lemma writeTreeMgr_twice [simp]:
  "writeTreeMgr ch m (writeTreeMgr ch m' v) = writeTreeMgr ch m v"
  by (cases ch; simp)

lemma pushLoad_writeTreeMgr:
  "pushLoad ch t (writeTreeMgr ch' m v) = writeTreeMgr ch' m (pushLoad ch t v)"
  by (cases ch; cases ch'; simp)

lemma writeTreeMgr_same: "mTreeMgr ch v = Some m \<Longrightarrow> writeTreeMgr ch m v = v"
  by (cases ch; simp)

subsection \<open>Refinement handling\<close>

lemma childrenAvailableLoop_spec:
  "childrenAvailableLoop node (Some mgr) is =
     Inr (list_all (\<lambda>i. case getChild node i of
                      None \<Rightarrow> False
                    | Some child \<Rightarrow>
                        (case findRData mgr child of None \<Rightarrow> False | Some rd \<Rightarrow> 0 \<le> getTexLayer rd)) is)"
  by (induction "is") (auto split: option.splits)

lemma childrenAvailable_spec:
  "childrenAvailable node (Some mgr) = Inr (childrenResident mgr node)"
  by (simp only: childrenAvailable_def childrenResident_def childrenAvailableLoop_spec)

lemma stampTiles_Nil [simp]: "stampTiles frame [] mgr = mgr"
  by (simp add: stampTiles_def)

lemma stampTiles_fields [simp]:
  "getTree (stampTiles frame tiles mgr) = getTree mgr"
  "mSource (stampTiles frame tiles mgr) = mSource mgr"
  by (simp_all add: stampTiles_def)

lemma stampTiles_append:
  "stampTiles frame ts (stampTiles frame ts' mgr) = stampTiles frame (ts' @ ts) mgr"
  by (auto simp: stampTiles_def fun_eq_iff option.map_comp comp_def setLastFrame_def
      intro!: TreeManager.equality map_option_cong)

lemma findRData_stampTiles:
  "findRData (stampTiles frame tiles mgr) node =
     (if getTileId node \<in> getTileId ` set tiles
      then map_option (setLastFrame frame) (findRData mgr node) else findRData mgr node)"
  by (simp add: findRData_def stampTiles_def)

lemma stampNode_spec:
  assumes "mTreeMgr ch v = Some mgr" and "findRData mgr node \<noteq> None"
  shows "stampNode ch node v = Inr (writeTreeMgr ch (stampTiles (mFrameCount v) [node] mgr) v)"
proof -
  from assms(2) obtain rd where rd: "findRData mgr node = Some rd" by auto
  have "mgr\<lparr>mRData := (mRData mgr)(getTileId node \<mapsto> setLastFrame (mFrameCount v) rd)\<rparr> =
      stampTiles (mFrameCount v) [node] mgr"
    using rd by (auto simp: stampTiles_def findRData_def fun_eq_iff intro!: TreeManager.equality)
  then show ?thesis
    using assms(1) rd by (simp add: stampNode_def writeRd_def bindE_def findRData_def)
qed

lemma addLoadLoop_spec:
  assumes "mTreeMgr ch v = Some mgr"
    and "\<forall>c \<in> set (presentChildren node is). findRData mgr c \<noteq> None"
  shows "addLoadLoop ch node is v =
           Inr (foldl (\<lambda>w t. pushLoad ch t w)
                  (writeTreeMgr ch (stampTiles (mFrameCount v) (presentChildren node is) mgr) v)
                  (missingChildIds node is))"
  using assms
proof (induction "is" arbitrary: v mgr)
  case Nil
  then show ?case
    by (simp add: presentChildren_def missingChildIds_def writeTreeMgr_same)
next
  case (Cons i rest)
  show ?case
  proof (cases "getChild node i")
    case None
    have pc: "presentChildren node (i # rest) = presentChildren node rest"
      using None by (simp add: presentChildren_def)
    have mc: "missingChildIds node (i # rest) =
        getChildTileId (getTileId node) (int i) # missingChildIds node rest"
      using None by (simp add: missingChildIds_def)
    let ?v = "pushLoad ch (getChildTileId (getTileId node) (int i)) v"
    have "addLoadLoop ch node (i # rest) v = addLoadLoop ch node rest ?v"
      using None by simp
    also have "\<dots> = Inr (foldl (\<lambda>w t. pushLoad ch t w)
                  (writeTreeMgr ch (stampTiles (mFrameCount ?v) (presentChildren node rest) mgr) ?v)
                  (missingChildIds node rest))"
      using Cons.prems pc by (intro Cons.IH) simp_all
    finally show ?thesis
      by (simp add: pc mc pushLoad_writeTreeMgr)
  next
    case (Some child)
    have pc: "presentChildren node (i # rest) = child # presentChildren node rest"
      using Some by (simp add: presentChildren_def)
    have mc: "missingChildIds node (i # rest) = missingChildIds node rest"
      using Some by (simp add: missingChildIds_def)
    let ?mgr = "stampTiles (mFrameCount v) [child] mgr"
    let ?v = "writeTreeMgr ch ?mgr v"
    have st: "stampNode ch child v = Inr ?v"
      using Cons.prems pc by (intro stampNode_spec) simp_all
    have "addLoadLoop ch node (i # rest) v = addLoadLoop ch node rest ?v"
      using Some st by (simp add: bindE_def)
    also have "\<dots> = Inr (foldl (\<lambda>w t. pushLoad ch t w)
                  (writeTreeMgr ch (stampTiles (mFrameCount ?v) (presentChildren node rest) ?mgr) ?v)
                  (missingChildIds node rest))"
      using Cons.prems pc by (intro Cons.IH) (simp_all add: findRData_stampTiles)
    finally show ?thesis
      by (simp add: pc mc stampTiles_append)
  qed
qed

lemma pushLoads_frame [simp]:
  "mLodData (foldl (\<lambda>w t. pushLoad ch t w) v ts) = mLodData v"
  "mCullData (foldl (\<lambda>w t. pushLoad ch t w) v ts) = mCullData v"
  "mRenderDEM (foldl (\<lambda>w t. pushLoad ch t w) v ts) = mRenderDEM v"
  "mRenderIMG (foldl (\<lambda>w t. pushLoad ch t w) v ts) = mRenderIMG v"
  "mTreeDEM (foldl (\<lambda>w t. pushLoad ch t w) v ts) = mTreeDEM v"
  "mTreeIMG (foldl (\<lambda>w t. pushLoad ch t w) v ts) = mTreeIMG v"
  "mTreeMgrDEM (foldl (\<lambda>w t. pushLoad ch t w) v ts) = mTreeMgrDEM v"
  "mTreeMgrIMG (foldl (\<lambda>w t. pushLoad ch t w) v ts) = mTreeMgrIMG v"
  "mParams (foldl (\<lambda>w t. pushLoad ch t w) v ts) = mParams v"
  "mStack (foldl (\<lambda>w t. pushLoad ch t w) v ts) = mStack v"
  "mStackTop (foldl (\<lambda>w t. pushLoad ch t w) v ts) = mStackTop v"
  "mFrameCount (foldl (\<lambda>w t. pushLoad ch t w) v ts) = mFrameCount v"
  by (induction ts arbitrary: v; simp)+

lemma pushLoads_channel [simp]:
  "mTreeMgr ch' (foldl (\<lambda>w t. pushLoad ch t w) v ts) = mTreeMgr ch' v"
  "mTree ch' (foldl (\<lambda>w t. pushLoad ch t w) v ts) = mTree ch' v"
  "mLoad ch' (foldl (\<lambda>w t. pushLoad ch t w) v ts) = (if ch' = ch then mLoad ch' v @ ts else mLoad ch' v)"
  by (induction ts arbitrary: v; simp)+

lemma getLODState_cong:
  "mStackTop v' = mStackTop v \<Longrightarrow> length (mStack v') = length (mStack v) \<Longrightarrow>
   getLODState v' lvl = getLODState v lvl"
  by (simp add: getLODState_def)

lemma addLoadChildren_spec:
  assumes "mTreeMgr ch v = Some mgr"
    and "\<forall>c \<in> set (presentChildren node childIndices). findRData mgr c \<noteq> None"
  shows "addLoadChildren ch (Some node) v = Inr (loadStep ch node mgr v)"
  using addLoadLoop_spec [OF assms]
  by (simp add: addLoadChildren_def loadStep_def del: addLoadLoop.simps)

lemma loadStep_frame [simp]:
  "mLodData (loadStep ch node mgr v) = mLodData v"
  "mCullData (loadStep ch node mgr v) = mCullData v"
  "mRenderDEM (loadStep ch node mgr v) = mRenderDEM v"
  "mRenderIMG (loadStep ch node mgr v) = mRenderIMG v"
  "mTreeDEM (loadStep ch node mgr v) = mTreeDEM v"
  "mTreeIMG (loadStep ch node mgr v) = mTreeIMG v"
  "mParams (loadStep ch node mgr v) = mParams v"
  "mStack (loadStep ch node mgr v) = mStack v"
  "mStackTop (loadStep ch node mgr v) = mStackTop v"
  "mFrameCount (loadStep ch node mgr v) = mFrameCount v"
  by (simp_all add: loadStep_def)

lemma loadStep_load:
  "mLoad ch' (loadStep ch node mgr v) =
     (if ch' = ch \<and> getLevel node < mMaxLevel (mParams v)
      then mLoad ch' v @ missingChildIds node childIndices else mLoad ch' v)"
  by (simp add: loadStep_def)

lemma loadStep_lists [simp]:
  "mLoadDEM (loadStep ch node mgr v) =
     (if ch = DEM \<and> getLevel node < mMaxLevel (mParams v)
      then mLoadDEM v @ missingChildIds node childIndices else mLoadDEM v)"
  "mLoadIMG (loadStep ch node mgr v) =
     (if ch = IMG \<and> getLevel node < mMaxLevel (mParams v)
      then mLoadIMG v @ missingChildIds node childIndices else mLoadIMG v)"
  using loadStep_load [of DEM ch node mgr v] loadStep_load [of IMG ch node mgr v]
  by auto

lemma writeTreeMgr_mgrs [simp]:
  "mTreeMgrDEM (writeTreeMgr ch m v) = (if ch = DEM then Some m else mTreeMgrDEM v)"
  "mTreeMgrIMG (writeTreeMgr ch m v) = (if ch = IMG then Some m else mTreeMgrIMG v)"
  by (cases ch, simp_all)+

lemma loadStep_mgrDEM [simp]:
  "mTreeMgrDEM (loadStep ch node mgr v) =
     (if ch = DEM \<and> getLevel node < mMaxLevel (mParams v)
      then Some (stampTiles (mFrameCount v) (presentChildren node childIndices) mgr)
      else mTreeMgrDEM v)"
  by (simp add: loadStep_def del: pushLoad.simps)

lemma loadStep_mgrIMG [simp]:
  "mTreeMgrIMG (loadStep ch node mgr v) =
     (if ch = IMG \<and> getLevel node < mMaxLevel (mParams v)
      then Some (stampTiles (mFrameCount v) (presentChildren node childIndices) mgr)
      else mTreeMgrIMG v)"
  by (simp add: loadStep_def del: pushLoad.simps)

lemma loadStep_mgr:
  "mTreeMgr ch v = Some mgr \<Longrightarrow>
   mTreeMgr ch' (loadStep ch node mgr v) =
     (if ch' = ch
      then Some (if getLevel node < mMaxLevel (mParams v)
                 then stampTiles (mFrameCount v) (presentChildren node childIndices) mgr else mgr)
      else mTreeMgr ch' v)"
  by (simp add: loadStep_def)

lemma drawLevel_spec:
  assumes "getLODState v (- 1) = Inr k"
    and "mTreeMgrDEM v = Some mgrD" and "mTreeMgrIMG v = Some mgrI"
    and "mNodeDEM (mStack v ! k) = Some nD" and "mNodeIMG (mStack v ! k) = Some nI"
    and "mRdDEM (mStack v ! k) = Some rdD" and "mRdIMG (mStack v ! k) = Some rdI"
    and "mRData mgrD rdD = Some d"
  shows "drawLevel v =
           Inr (v\<lparr>mTreeMgrDEM := Some (mgrD\<lparr>mRData := (mRData mgrD)(rdD \<mapsto> addFlag eRender d)\<rparr>),
                  mRenderDEM := mRenderDEM v @ [rdD], mRenderIMG := mRenderIMG v @ [rdI]\<rparr>)"
  using assms by (simp add: drawLevel_def bindE_def writeRd_def)

lemma stampTiles_lookup:
  "mRData (stampTiles frame tiles mgr) key =
     (if key \<in> getTileId ` set tiles then map_option (setLastFrame frame) (mRData mgr key)
      else mRData mgr key)"
  by (simp add: stampTiles_def)

lemma handleRefine_steps:
  assumes k: "getLODState v (- 1) = Inr k"
    and mgrs: "mTreeMgrDEM v = Some mgrD" "mTreeMgrIMG v = Some mgrI"
    and nodes: "mNodeDEM (mStack v ! k) = Some nD" "mNodeIMG (mStack v ! k) = Some nI"
    and rds: "mRdDEM (mStack v ! k) = Some rdD" "mRdIMG (mStack v ! k) = Some rdI"
      "mRData mgrD rdD \<noteq> None"
    and kids: "\<forall>c \<in> set (presentChildren nD childIndices). findRData mgrD c \<noteq> None"
      "\<forall>c \<in> set (presentChildren nI childIndices). findRData mgrI c \<noteq> None"
  defines "rD \<equiv> childrenResident mgrD nD" and "rI \<equiv> childrenResident mgrI nI"
  defines "v1 \<equiv> (if \<not> rD then loadStep DEM nD mgrD v else v)"
  defines "v2 \<equiv> (if \<not> rI then loadStep IMG nI mgrI v1 else v1)"
  shows "handleRefine tileId v = (if rD \<and> rI then Inr (True, v) else bindE (drawLevel v2) (\<lambda>v3. Inr (False, v3)))"
    and "\<exists>mgrD' d'. mTreeMgrDEM v2 = Some mgrD' \<and> mRData mgrD' rdD = Some d' \<and>
           drawLevel v2 =
             Inr (v2\<lparr>mTreeMgrDEM := Some (mgrD'\<lparr>mRData := (mRData mgrD')(rdD \<mapsto> addFlag eRender d')\<rparr>),
                     mRenderDEM := mRenderDEM v2 @ [rdD], mRenderIMG := mRenderIMG v2 @ [rdI]\<rparr>)"
proof -
  have aD: "childrenAvailable nD (Some mgrD) = Inr rD"
    by (simp add: childrenAvailable_spec rD_def)
  have aI: "childrenAvailable nI (Some mgrI) = Inr rI"
    by (simp add: childrenAvailable_spec rI_def)
  have s1: "(if \<not> rD then addLoadChildrenDEM (mNodeDEM (mStack v ! k)) v else Inr v) = Inr v1"
    using addLoadChildren_spec [of DEM v mgrD nD] mgrs kids
    by (simp add: v1_def addLoadChildrenDEM_def nodes)
  have m1: "mTreeMgrIMG v1 = Some mgrI"
    using loadStep_mgr [of DEM v mgrD IMG nD] mgrs by (simp add: v1_def)
  have st1: "mStack v1 = mStack v" "mStackTop v1 = mStackTop v" "mParams v1 = mParams v"
    "mFrameCount v1 = mFrameCount v"
    by (simp_all add: v1_def)
  have s2: "(if \<not> rI then addLoadChildrenIMG (mNodeIMG (mStack v1 ! k)) v1 else Inr v1) = Inr v2"
    using addLoadChildren_spec [of IMG v1 mgrI nI] m1 kids
    by (simp add: v2_def addLoadChildrenIMG_def nodes st1)
  show "handleRefine tileId v = (if rD \<and> rI then Inr (True, v) else bindE (drawLevel v2) (\<lambda>v3. Inr (False, v3)))"
  proof (cases "rD \<and> rI")
    case True
    then show ?thesis
      using s1 s2 by (simp add: handleRefine_def k bindE_def nodes aD aI mgrs v1_def v2_def)
  next
    case False
    then show ?thesis
      using s1 s2 by (auto simp: handleRefine_def k bindE_def nodes aD aI mgrs)
  qed
  have st2: "mStack v2 = mStack v" "mStackTop v2 = mStackTop v"
    by (simp_all add: v2_def st1)
  have k2: "getLODState v2 (- 1) = Inr k"
    using k getLODState_cong [of v2 v "- 1"] by (simp add: st2)
  have m2I: "mTreeMgrIMG v2 \<noteq> None"
    using loadStep_mgr [of IMG v1 mgrI IMG nI] m1 by (simp add: v2_def)
  then obtain mgrI' where mI: "mTreeMgrIMG v2 = Some mgrI'" by auto
  have "\<exists>mgrD'. mTreeMgrDEM v2 = Some mgrD' \<and> mRData mgrD' rdD \<noteq> None"
  proof -
    have a: "mTreeMgrDEM v2 = mTreeMgrDEM v1"
      using loadStep_mgr [of IMG v1 mgrI DEM nI] m1 by (simp add: v2_def)
    have "\<exists>mgrD'. mTreeMgrDEM v1 = Some mgrD' \<and> mRData mgrD' rdD \<noteq> None"
      using loadStep_mgr [of DEM v mgrD DEM nD] mgrs rds(3)
      by (auto simp: v1_def stampTiles_lookup)
    with a show ?thesis by simp
  qed
  then obtain mgrD' d' where mD: "mTreeMgrDEM v2 = Some mgrD'" "mRData mgrD' rdD = Some d'"
    by auto
  have "drawLevel v2 =
      Inr (v2\<lparr>mTreeMgrDEM := Some (mgrD'\<lparr>mRData := (mRData mgrD')(rdD \<mapsto> addFlag eRender d')\<rparr>),
              mRenderDEM := mRenderDEM v2 @ [rdD], mRenderIMG := mRenderIMG v2 @ [rdI]\<rparr>)"
    using k2 mD mI nodes rds by (intro drawLevel_spec) (simp_all add: st2)
  with mD show "\<exists>mgrD' d'. mTreeMgrDEM v2 = Some mgrD' \<and> mRData mgrD' rdD = Some d' \<and>
           drawLevel v2 =
             Inr (v2\<lparr>mTreeMgrDEM := Some (mgrD'\<lparr>mRData := (mRData mgrD')(rdD \<mapsto> addFlag eRender d')\<rparr>),
                     mRenderDEM := mRenderDEM v2 @ [rdD], mRenderIMG := mRenderIMG v2 @ [rdI]\<rparr>)"
    by blast
qed

lemma lastFrameOf_draw:
  assumes "mRData mgr rd = Some d"
  shows "lastFrameOf (Some (mgr\<lparr>mRData := (mRData mgr)(rd \<mapsto> addFlag eRender d)\<rparr>)) c =
         lastFrameOf (Some mgr) c"
  using assms by (auto simp: lastFrameOf_def findRData_def addFlag_def)

lemma lastFrameOf_stamp:
  assumes "findRData mgr c \<noteq> None" and "c \<in> set tiles"
  shows "lastFrameOf (Some (stampTiles frame tiles mgr)) c = Some frame"
  using assms by (auto simp: lastFrameOf_def findRData_stampTiles setLastFrame_def)


lemma partial_facts:
  "getLODState (atRoot 0 (idleVisitor (levelParams m) (Some partialMgr) (Some partialMgr))) (- 1) = Inr 0"
  "mStack (atRoot 0 (idleVisitor (levelParams m) (Some partialMgr) (Some partialMgr))) ! 0 =
     \<lparr>mNodeDEM = partialTree 0, mNodeIMG = partialTree 0,
      mRdDEM = Some \<lparr>level = 0, patchIdx = 0\<rparr>, mRdIMG = Some \<lparr>level = 0, patchIdx = 0\<rparr>\<rparr>"
  "mTreeMgrDEM (atRoot 0 (idleVisitor (levelParams m) (Some partialMgr) (Some partialMgr))) = Some partialMgr"
  "mTreeMgrIMG (atRoot 0 (idleVisitor (levelParams m) (Some partialMgr) (Some partialMgr))) = Some partialMgr"
  "mParams (atRoot 0 (idleVisitor (levelParams m) (Some partialMgr) (Some partialMgr))) = levelParams m"
  "mFrameCount (atRoot 0 (idleVisitor (levelParams m) (Some partialMgr) (Some partialMgr))) = 7"
  "mLoadDEM (atRoot 0 (idleVisitor (levelParams m) (Some partialMgr) (Some partialMgr))) = []"
  "mLoadIMG (atRoot 0 (idleVisitor (levelParams m) (Some partialMgr) (Some partialMgr))) = []"
  "mRenderDEM (atRoot 0 (idleVisitor (levelParams m) (Some partialMgr) (Some partialMgr))) = []"
  "mRenderIMG (atRoot 0 (idleVisitor (levelParams m) (Some partialMgr) (Some partialMgr))) = []"
  by (simp_all add: getLODState_def atRoot_def idleVisitor_def replicate32 partialMgr_def
      partialTree_def)

lemma levelParams_max [simp]: "mMaxLevel (levelParams m) = m"
  by (simp add: levelParams_def)

lemma partial_root:
  "partialTree 0 = Some (TileNode \<lparr>level = 0, patchIdx = 0\<rparr> (TileFloat 0)
                  (Some (leafNode \<lparr>level = 1, patchIdx = 0\<rparr>)) None None None)"
  by (simp add: partialTree_def)

lemma partial_children:
  "presentChildren (TileNode \<lparr>level = 0, patchIdx = 0\<rparr> (TileFloat 0)
      (Some (leafNode \<lparr>level = 1, patchIdx = 0\<rparr>)) None None None) childIndices =
     [leafNode \<lparr>level = 1, patchIdx = 0\<rparr>]"
  "missingChildIds (TileNode \<lparr>level = 0, patchIdx = 0\<rparr> (TileFloat 0)
      (Some (leafNode \<lparr>level = 1, patchIdx = 0\<rparr>)) None None None) childIndices =
     [\<lparr>level = 1, patchIdx = 1\<rparr>, \<lparr>level = 1, patchIdx = 2\<rparr>, \<lparr>level = 1, patchIdx = 3\<rparr>]"
  "\<not> childrenResident partialMgr (TileNode \<lparr>level = 0, patchIdx = 0\<rparr> (TileFloat 0)
      (Some (leafNode \<lparr>level = 1, patchIdx = 0\<rparr>)) None None None)"
  "getLevel (TileNode \<lparr>level = 0, patchIdx = 0\<rparr> (TileFloat 0)
      (Some (leafNode \<lparr>level = 1, patchIdx = 0\<rparr>)) None None None) = 0"
  "findRData partialMgr (leafNode \<lparr>level = 1, patchIdx = 0\<rparr>) = Some (boxRd 0)"
  "mRData partialMgr \<lparr>level = 0, patchIdx = 0\<rparr> = Some (boxRd 0)"
  by (simp_all add: presentChildren_def missingChildIds_def childIndices_def getChild_def
      childrenResident_def getChildTileId_def getLevel_def findRData_def partialMgr_def leafNode_def)


lemma loadStep_at_max: "\<not> getLevel node < mMaxLevel (mParams v) \<Longrightarrow> loadStep ch node mgr v = v"
  by (simp add: loadStep_def)


text \<open>
  C3, as amended. With both channels attached, at a state with a node and render data in
  both, \<^verbatim>\<open>handleRefine\<close> returns true exactly when all four DEM children and all four IMG
  children are present with a texture layer, and it changes nothing then. Otherwise it draws
  the current level into both render lists and, for each channel whose children are not all
  available, and only where the level of the node is below the maximum level, it requests the
  missing children and stamps the frame count on the children that are present; where the
  level is not below the maximum level, the stamps of the children stay as they were.
\<close>

theorem handleRefine_both:
  assumes k: "getLODState v (- 1) = Inr k"
    and mgrs: "mTreeMgrDEM v = Some mgrD" "mTreeMgrIMG v = Some mgrI"
    and nodes: "mNodeDEM (mStack v ! k) = Some nD" "mNodeIMG (mStack v ! k) = Some nI"
    and rds: "mRdDEM (mStack v ! k) = Some rdD" "mRdIMG (mStack v ! k) = Some rdI"
      "mRData mgrD rdD \<noteq> None"
    and kids: "\<forall>c \<in> set (presentChildren nD childIndices). findRData mgrD c \<noteq> None"
      "\<forall>c \<in> set (presentChildren nI childIndices). findRData mgrI c \<noteq> None"
  shows "\<exists>v'. handleRefine tileId v =
             Inr (childrenResident mgrD nD \<and> childrenResident mgrI nI, v') \<and>
     (childrenResident mgrD nD \<and> childrenResident mgrI nI \<longrightarrow> v' = v) \<and>
     (\<not> (childrenResident mgrD nD \<and> childrenResident mgrI nI) \<longrightarrow>
        mLoadDEM v' = mLoadDEM v @
          (if \<not> childrenResident mgrD nD \<and> getLevel nD < mMaxLevel (mParams v)
           then missingChildIds nD childIndices else []) \<and>
        mLoadIMG v' = mLoadIMG v @
          (if \<not> childrenResident mgrI nI \<and> getLevel nI < mMaxLevel (mParams v)
           then missingChildIds nI childIndices else []) \<and>
        (\<forall>c \<in> set (presentChildren nD childIndices).
           lastFrameOf (mTreeMgrDEM v') c =
             (if \<not> childrenResident mgrD nD \<and> getLevel nD < mMaxLevel (mParams v)
              then Some (mFrameCount v) else lastFrameOf (mTreeMgrDEM v) c)) \<and>
        (\<forall>c \<in> set (presentChildren nI childIndices).
           lastFrameOf (mTreeMgrIMG v') c =
             (if \<not> childrenResident mgrI nI \<and> getLevel nI < mMaxLevel (mParams v)
              then Some (mFrameCount v) else lastFrameOf (mTreeMgrIMG v) c)) \<and>
        mRenderDEM v' = mRenderDEM v @ [rdD] \<and>
        mRenderIMG v' = mRenderIMG v @ [rdI])"
proof -
  define rD where "rD = childrenResident mgrD nD"
  define rI where "rI = childrenResident mgrI nI"
  define v1 where "v1 = (if \<not> rD then loadStep DEM nD mgrD v else v)"
  define v2 where "v2 = (if \<not> rI then loadStep IMG nI mgrI v1 else v1)"
  note steps =
    handleRefine_steps(1) [OF assms, of tileId, folded rD_def rI_def, folded v1_def, folded v2_def]
    handleRefine_steps(2) [OF assms, folded rD_def rI_def, folded v1_def, folded v2_def]
  from steps(2) obtain mgrD' d' where
    mD: "mTreeMgrDEM v2 = Some mgrD'" "mRData mgrD' rdD = Some d'" and
    dl: "drawLevel v2 =
      Inr (v2\<lparr>mTreeMgrDEM := Some (mgrD'\<lparr>mRData := (mRData mgrD')(rdD \<mapsto> addFlag eRender d')\<rparr>),
              mRenderDEM := mRenderDEM v2 @ [rdD], mRenderIMG := mRenderIMG v2 @ [rdI]\<rparr>)"
    by blast
  define v3 where "v3 = v2\<lparr>mTreeMgrDEM := Some (mgrD'\<lparr>mRData := (mRData mgrD')(rdD \<mapsto> addFlag eRender d')\<rparr>),
              mRenderDEM := mRenderDEM v2 @ [rdD], mRenderIMG := mRenderIMG v2 @ [rdI]\<rparr>"
  have res: "handleRefine tileId v = Inr (rD \<and> rI, if rD \<and> rI then v else v3)"
    using steps(1) dl by (simp add: bindE_def v3_def)
  have m1I: "mTreeMgrIMG v1 = Some mgrI"
    using loadStep_mgr [of DEM v mgrD IMG nD] mgrs by (simp add: v1_def)
  have p1: "mParams v1 = mParams v" "mFrameCount v1 = mFrameCount v"
    by (simp_all add: v1_def)
  have loadD: "mLoadDEM v3 = mLoadDEM v @
      (if \<not> rD \<and> getLevel nD < mMaxLevel (mParams v) then missingChildIds nD childIndices else [])"
    by (simp add: v3_def v2_def v1_def)
  have loadI: "mLoadIMG v3 = mLoadIMG v @
      (if \<not> rI \<and> getLevel nI < mMaxLevel (mParams v) then missingChildIds nI childIndices else [])"
    by (simp add: v3_def v2_def v1_def)
  have ren: "mRenderDEM v3 = mRenderDEM v @ [rdD]" "mRenderIMG v3 = mRenderIMG v @ [rdI]"
    by (simp_all add: v3_def v2_def v1_def)
  have mgrD2: "mgrD' = (if \<not> rD \<and> getLevel nD < mMaxLevel (mParams v)
      then stampTiles (mFrameCount v) (presentChildren nD childIndices) mgrD else mgrD)"
  proof -
    have "mTreeMgrDEM v1 = Some (if \<not> rD \<and> getLevel nD < mMaxLevel (mParams v)
        then stampTiles (mFrameCount v) (presentChildren nD childIndices) mgrD else mgrD)"
      by (simp add: v1_def mgrs)
    moreover have "mTreeMgrDEM v2 = mTreeMgrDEM v1"
      by (simp add: v2_def)
    ultimately show ?thesis
      using mD(1) by simp
  qed
  have mgrI3: "mTreeMgrIMG v3 = Some (if \<not> rI \<and> getLevel nI < mMaxLevel (mParams v)
      then stampTiles (mFrameCount v) (presentChildren nI childIndices) mgrI else mgrI)"
    by (simp add: v3_def v2_def p1 m1I)
  have lfD: "lastFrameOf (mTreeMgrDEM v3) c =
      (if \<not> rD \<and> getLevel nD < mMaxLevel (mParams v)
       then Some (mFrameCount v) else lastFrameOf (mTreeMgrDEM v) c)"
    if "c \<in> set (presentChildren nD childIndices)" for c
  proof -
    have "lastFrameOf (mTreeMgrDEM v3) c = lastFrameOf (Some mgrD') c"
      using lastFrameOf_draw [OF mD(2), of c] by (simp add: v3_def)
    also have "\<dots> = (if \<not> rD \<and> getLevel nD < mMaxLevel (mParams v)
       then Some (mFrameCount v) else lastFrameOf (mTreeMgrDEM v) c)"
      using that kids(1) lastFrameOf_stamp [of mgrD c "presentChildren nD childIndices" "mFrameCount v"]
      by (simp add: mgrD2 mgrs)
    finally show ?thesis .
  qed
  have lfI: "lastFrameOf (mTreeMgrIMG v3) c =
      (if \<not> rI \<and> getLevel nI < mMaxLevel (mParams v)
       then Some (mFrameCount v) else lastFrameOf (mTreeMgrIMG v) c)"
    if "c \<in> set (presentChildren nI childIndices)" for c
    using that kids(2) lastFrameOf_stamp [of mgrI c "presentChildren nI childIndices" "mFrameCount v"]
    by (simp add: mgrI3 mgrs)
  show ?thesis
    unfolding rD_def [symmetric] rI_def [symmetric]
    by (rule exI [of _ "if rD \<and> rI then v else v3"])
       (simp add: res loadD loadI ren lfD lfI)
qed

theorem handleRefine_both_witness:
  "(\<exists>v'. handleRefine \<lparr>level = 0, patchIdx = 0\<rparr>
           (atRoot 0 (idleVisitor (levelParams 1) (Some partialMgr) (Some partialMgr))) = Inr (False, v') \<and>
         mLoadDEM v' = [\<lparr>level = 1, patchIdx = 1\<rparr>, \<lparr>level = 1, patchIdx = 2\<rparr>, \<lparr>level = 1, patchIdx = 3\<rparr>] \<and>
         mLoadIMG v' = [\<lparr>level = 1, patchIdx = 1\<rparr>, \<lparr>level = 1, patchIdx = 2\<rparr>, \<lparr>level = 1, patchIdx = 3\<rparr>] \<and>
         lastFrameOf (mTreeMgrDEM v') (leafNode \<lparr>level = 1, patchIdx = 0\<rparr>) = Some 7 \<and>
         lastFrameOf (mTreeMgrIMG v') (leafNode \<lparr>level = 1, patchIdx = 0\<rparr>) = Some 7 \<and>
         mRenderDEM v' = [\<lparr>level = 0, patchIdx = 0\<rparr>] \<and>
         mRenderIMG v' = [\<lparr>level = 0, patchIdx = 0\<rparr>])"
proof -
  let ?v = "atRoot 0 (idleVisitor (levelParams 1) (Some partialMgr) (Some partialMgr))"
  let ?n = "TileNode \<lparr>level = 0, patchIdx = 0\<rparr> (TileFloat 0)
      (Some (leafNode \<lparr>level = 1, patchIdx = 0\<rparr>)) None None None"
  have "\<exists>v'. handleRefine \<lparr>level = 0, patchIdx = 0\<rparr> ?v =
             Inr (childrenResident partialMgr ?n \<and> childrenResident partialMgr ?n, v') \<and>
     (childrenResident partialMgr ?n \<and> childrenResident partialMgr ?n \<longrightarrow> v' = ?v) \<and>
     (\<not> (childrenResident partialMgr ?n \<and> childrenResident partialMgr ?n) \<longrightarrow>
        mLoadDEM v' = mLoadDEM ?v @
          (if \<not> childrenResident partialMgr ?n \<and> getLevel ?n < mMaxLevel (mParams ?v)
           then missingChildIds ?n childIndices else []) \<and>
        mLoadIMG v' = mLoadIMG ?v @
          (if \<not> childrenResident partialMgr ?n \<and> getLevel ?n < mMaxLevel (mParams ?v)
           then missingChildIds ?n childIndices else []) \<and>
        (\<forall>c \<in> set (presentChildren ?n childIndices).
           lastFrameOf (mTreeMgrDEM v') c =
             (if \<not> childrenResident partialMgr ?n \<and> getLevel ?n < mMaxLevel (mParams ?v)
              then Some (mFrameCount ?v) else lastFrameOf (mTreeMgrDEM ?v) c)) \<and>
        (\<forall>c \<in> set (presentChildren ?n childIndices).
           lastFrameOf (mTreeMgrIMG v') c =
             (if \<not> childrenResident partialMgr ?n \<and> getLevel ?n < mMaxLevel (mParams ?v)
              then Some (mFrameCount ?v) else lastFrameOf (mTreeMgrIMG ?v) c)) \<and>
        mRenderDEM v' = mRenderDEM ?v @ [\<lparr>level = 0, patchIdx = 0\<rparr>] \<and>
        mRenderIMG v' = mRenderIMG ?v @ [\<lparr>level = 0, patchIdx = 0\<rparr>])"
    by (rule handleRefine_both [where k = 0])
       (simp_all add: partial_facts partial_root partial_children)
  then show ?thesis
    by (simp add: partial_facts partial_children)
qed

text \<open>
  C3 as stated fails: at a node whose level is the maximum level, a child that is present
  keeps its old stamp (0, in frame 7) although its siblings are missing.
\<close>

theorem handleRefine_no_stamp_counterexample:
  "handleRefine \<lparr>level = 0, patchIdx = 0\<rparr>
     (atRoot 0 (idleVisitor (levelParams 0) (Some partialMgr) (Some partialMgr))) =
     Inr (False, drawnRoot) \<and>
   getChild (the (partialTree 0)) 0 = Some (leafNode \<lparr>level = 1, patchIdx = 0\<rparr>) \<and>
   lastFrameOf (mTreeMgrDEM drawnRoot) (leafNode \<lparr>level = 1, patchIdx = 0\<rparr>) = Some 0 \<and>
   lastFrameOf (mTreeMgrIMG drawnRoot) (leafNode \<lparr>level = 1, patchIdx = 0\<rparr>) = Some 0 \<and>
   mFrameCount (atRoot 0 (idleVisitor (levelParams 0) (Some partialMgr) (Some partialMgr))) = 7 \<and>
   mLoadDEM drawnRoot = [] \<and> mLoadIMG drawnRoot = []"
proof -
  let ?v = "atRoot 0 (idleVisitor (levelParams 0) (Some partialMgr) (Some partialMgr))"
  let ?n = "TileNode \<lparr>level = 0, patchIdx = 0\<rparr> (TileFloat 0)
      (Some (leafNode \<lparr>level = 1, patchIdx = 0\<rparr>)) None None None"
  have "handleRefine \<lparr>level = 0, patchIdx = 0\<rparr> ?v =
      (if childrenResident partialMgr ?n \<and> childrenResident partialMgr ?n then Inr (True, ?v)
       else bindE (drawLevel
              (if \<not> childrenResident partialMgr ?n
               then loadStep IMG ?n partialMgr
                      (if \<not> childrenResident partialMgr ?n then loadStep DEM ?n partialMgr ?v else ?v)
               else (if \<not> childrenResident partialMgr ?n then loadStep DEM ?n partialMgr ?v else ?v)))
              (\<lambda>v3. Inr (False, v3)))"
    by (rule handleRefine_steps(1) [where k = 0 and rdD = "\<lparr>level = 0, patchIdx = 0\<rparr>"
          and rdI = "\<lparr>level = 0, patchIdx = 0\<rparr>"])
       (simp_all add: partial_facts partial_root partial_children)
  also have "\<dots> = bindE (drawLevel ?v) (\<lambda>v3. Inr (False, v3))"
    by (simp add: partial_children loadStep_at_max partial_facts)
  also have "drawLevel ?v = Inr drawnRoot"
  proof -
    have "drawLevel ?v =
        Inr (?v\<lparr>mTreeMgrDEM := Some (partialMgr\<lparr>mRData := (mRData partialMgr)
               (\<lparr>level = 0, patchIdx = 0\<rparr> \<mapsto> addFlag eRender (boxRd 0))\<rparr>),
             mRenderDEM := mRenderDEM ?v @ [\<lparr>level = 0, patchIdx = 0\<rparr>],
             mRenderIMG := mRenderIMG ?v @ [\<lparr>level = 0, patchIdx = 0\<rparr>]\<rparr>)"
      by (rule drawLevel_spec [where k = 0 and mgrI = partialMgr and nD = ?n and nI = ?n])
         (simp_all add: partial_facts partial_root partial_children)
    then show ?thesis
      by (simp add: drawnRoot_def partial_facts)
  qed
  finally have res: "handleRefine \<lparr>level = 0, patchIdx = 0\<rparr> ?v = Inr (False, drawnRoot)"
    by (simp add: bindE_def)
  have obs: "lastFrameOf (mTreeMgrDEM drawnRoot) (leafNode \<lparr>level = 1, patchIdx = 0\<rparr>) = Some 0"
    "lastFrameOf (mTreeMgrIMG drawnRoot) (leafNode \<lparr>level = 1, patchIdx = 0\<rparr>) = Some 0"
    "mLoadDEM drawnRoot = []" "mLoadIMG drawnRoot = []"
  proof -
    have c: "mRData partialMgr \<lparr>level = 1, patchIdx = 0\<rparr> = Some (boxRd 0)"
      by (simp add: partialMgr_def)
    show "lastFrameOf (mTreeMgrDEM drawnRoot) (leafNode \<lparr>level = 1, patchIdx = 0\<rparr>) = Some 0"
      "lastFrameOf (mTreeMgrIMG drawnRoot) (leafNode \<lparr>level = 1, patchIdx = 0\<rparr>) = Some 0"
      "mLoadDEM drawnRoot = []" "mLoadIMG drawnRoot = []"
      by (simp_all add: drawnRoot_def partial_facts lastFrameOf_def findRData_def leafNode_def c
          boxRd_def)
  qed
  show ?thesis
    by (simp add: res obs partial_facts partial_root getChild_def)
qed

subsection \<open>The load lists\<close>

lemma nodesOf_unfold: "nodesOf n = n # concat (map nodesBelow (childList n))"
  by (cases n) simp

lemma getChild_childList: "(getChild n i = Some c) = (i < 4 \<and> childList n ! i = Some c)"
proof (cases n)
  case (TileNode t tile c0 c1 c2 c3)
  have "i < 4 \<Longrightarrow> i = 0 \<or> i = 1 \<or> i = 2 \<or> i = 3" by arith
  then show ?thesis
    unfolding TileNode by (auto simp: getChild_def)
qed

lemma getChild_in_childList: "getChild n i = Some c \<Longrightarrow> Some c \<in> set (childList n)"
proof -
  assume a: "getChild n i = Some c"
  have "length (childList n) = 4" by (cases n) simp
  with a show ?thesis
    unfolding getChild_childList by (metis nth_mem)
qed

lemma childList_getChild: "Some c \<in> set (childList n) \<Longrightarrow> \<exists>i<4. getChild n i = Some c"
proof -
  assume "Some c \<in> set (childList n)"
  then obtain i where "i < length (childList n)" "childList n ! i = Some c"
    by (auto simp: in_set_conv_nth)
  moreover have "length (childList n) = 4" by (cases n) simp
  ultimately show ?thesis
    unfolding getChild_childList by auto
qed

lemma size_child: "Some c \<in> set (childList n) \<Longrightarrow> size c < size n"
  by (cases n) auto

lemma in_nodesOf_iff:
  "m \<in> set (nodesOf n) = (m = n \<or> (\<exists>c. Some c \<in> set (childList n) \<and> m \<in> set (nodesOf c)))"
proof -
  have "(\<exists>co \<in> set (childList n). m \<in> set (nodesBelow co)) =
      (\<exists>c. Some c \<in> set (childList n) \<and> m \<in> set (nodesOf c))"
  proof
    assume "\<exists>co \<in> set (childList n). m \<in> set (nodesBelow co)"
    then obtain co where co: "co \<in> set (childList n)" "m \<in> set (nodesBelow co)" by auto
    show "\<exists>c. Some c \<in> set (childList n) \<and> m \<in> set (nodesOf c)"
    proof (cases co)
      case None
      with co show ?thesis by simp
    next
      case (Some c)
      with co have "Some c \<in> set (childList n)" "m \<in> set (nodesOf c)" by simp_all
      then show ?thesis by blast
    qed
  next
    assume "\<exists>c. Some c \<in> set (childList n) \<and> m \<in> set (nodesOf c)"
    then obtain c where "Some c \<in> set (childList n)" "m \<in> set (nodesBelow (Some c))" by auto
    then show "\<exists>co \<in> set (childList n). m \<in> set (nodesBelow co)" by blast
  qed
  moreover have "m \<in> set (nodesOf n) =
      (m = n \<or> (\<exists>co \<in> set (childList n). m \<in> set (nodesBelow co)))"
    by (subst nodesOf_unfold) simp
  ultimately show ?thesis by simp
qed

lemma nodesOf_self: "n \<in> set (nodesOf n)"
  by (subst nodesOf_unfold) simp

lemma nodesOf_trans: "m \<in> set (nodesOf r) \<Longrightarrow> x \<in> set (nodesOf m) \<Longrightarrow> x \<in> set (nodesOf r)"
proof (induction r rule: measure_induct_rule [of size])
  case (less r)
  from less.prems(1) consider "m = r" | c where "Some c \<in> set (childList r)" "m \<in> set (nodesOf c)"
    unfolding in_nodesOf_iff [of m r] by auto
  then show ?case
  proof cases
    case 1
    with less.prems show ?thesis by simp
  next
    case 2
    then have "x \<in> set (nodesOf c)"
      using less.IH [of c] less.prems(2) size_child by blast
    with 2(1) show ?thesis
      unfolding in_nodesOf_iff [of x r] by blast
  qed
qed

lemma subtree_nodesOf: "m \<in> subtree r \<Longrightarrow> m \<in> set (nodesOf r)"
proof (induction rule: subtree.induct)
  case top
  show ?case by (rule nodesOf_self)
next
  case (down m i c)
  have "c \<in> set (nodesOf m)"
    using getChild_in_childList [OF down(3)] nodesOf_self [of c]
    unfolding in_nodesOf_iff [of c m] by blast
  with down.IH show ?case by (rule nodesOf_trans)
qed

lemma subtree_trans: "c \<in> subtree m \<Longrightarrow> m \<in> subtree r \<Longrightarrow> c \<in> subtree r"
  by (induction rule: subtree.induct) (auto intro: subtree.intros)

lemma nodesOf_subtree: "m \<in> set (nodesOf r) \<Longrightarrow> m \<in> subtree r"
proof (induction r rule: measure_induct_rule [of size])
  case (less r)
  from less.prems consider "m = r" | c where "Some c \<in> set (childList r)" "m \<in> set (nodesOf c)"
    unfolding in_nodesOf_iff [of m r] by auto
  then show ?case
  proof cases
    case 1
    then show ?thesis by (simp add: subtree.top)
  next
    case 2
    then have "m \<in> subtree c"
      using less.IH [of c] size_child by blast
    moreover have "c \<in> subtree r"
      using childList_getChild [OF 2(1)] by (auto intro: subtree.intros)
    ultimately show ?thesis by (rule subtree_trans)
  qed
qed

lemma set_nodesOf: "set (nodesOf r) = subtree r"
  using nodesOf_subtree subtree_nodesOf by blast

lemma subtree_treeNodes:
  "m \<in> subtree r \<Longrightarrow> r \<in> treeNodes tree \<Longrightarrow> m \<in> treeNodes tree"
  by (induction rule: subtree.induct) (auto intro: treeNodes.step)

lemma treeNodes_subtree:
  "m \<in> treeNodes tree \<Longrightarrow> \<exists>i r. i < sNumRoots \<and> getRoot tree i = Some r \<and> m \<in> subtree r"
proof (induction rule: treeNodes.induct)
  case (base i r)
  then show ?case using subtree.top by blast
next
  case (step m i c)
  then show ?case using subtree.down by blast
qed

lemma inTree_iff: "inTree tree n = (n \<in> treeNodes tree)"
proof
  assume "inTree tree n"
  then obtain i where i: "i < sNumRoots" "n \<in> set (nodesBelow (getRoot tree i))"
    by (auto simp: inTree_def list_ex_iff)
  then obtain r where r: "getRoot tree i = Some r" by (cases "getRoot tree i") auto
  with i have "n \<in> subtree r" by (simp add: set_nodesOf)
  with i r show "n \<in> treeNodes tree"
    using subtree_treeNodes treeNodes.base by blast
next
  assume "n \<in> treeNodes tree"
  then obtain i r where "i < sNumRoots" "getRoot tree i = Some r" "n \<in> subtree r"
    using treeNodes_subtree by blast
  then show "inTree tree n"
    by (auto simp: inTree_def list_ex_iff set_nodesOf intro!: bexI [of _ i])
qed

lemma hasNode_iff: "hasNode tree t = (\<exists>n \<in> treeNodes tree. getTileId n = t)"
proof -
  have "hasNode tree t = (\<exists>n. inTree tree n \<and> getTileId n = t)"
    by (auto simp: hasNode_def inTree_def list_ex_iff)
  then show ?thesis by (auto simp: inTree_iff)
qed

lemma childIdsOK_iff:
  "childIdsOK n = (\<forall>i c. getChild n i = Some c \<longrightarrow> getTileId c = getChildTileId (getTileId n) (int i))"
proof
  assume ok: "childIdsOK n"
  show "\<forall>i c. getChild n i = Some c \<longrightarrow> getTileId c = getChildTileId (getTileId n) (int i)"
  proof (intro allI impI)
    fix i c assume c: "getChild n i = Some c"
    then have "i < 4" by (simp add: getChild_childList)
    then have "i \<in> set childIndices" by (auto simp: childIndices_def)
    with ok c show "getTileId c = getChildTileId (getTileId n) (int i)"
      by (auto simp: childIdsOK_def list_all_iff)
  qed
next
  assume "\<forall>i c. getChild n i = Some c \<longrightarrow> getTileId c = getChildTileId (getTileId n) (int i)"
  then show "childIdsOK n"
    by (auto simp: childIdsOK_def list_all_iff split: option.splits)
qed

lemma wfTree_iff:
  "wfTree tree = (\<forall>i r. i < sNumRoots \<and> getRoot tree i = Some r \<longrightarrow>
     getTileId r = \<lparr>level = 0, patchIdx = int i\<rparr> \<and> list_all childIdsOK (nodesOf r))"
proof -
  have "wfTree tree = (\<forall>i \<in> set [0..<sNumRoots]. case getRoot tree i of None \<Rightarrow> True
      | Some r \<Rightarrow> getTileId r = \<lparr>level = 0, patchIdx = int i\<rparr> \<and> list_all childIdsOK (nodesOf r))"
    by (simp only: wfTree_def Ball_set)
  also have "\<dots> = (\<forall>i < sNumRoots. case getRoot tree i of None \<Rightarrow> True
      | Some r \<Rightarrow> getTileId r = \<lparr>level = 0, patchIdx = int i\<rparr> \<and> list_all childIdsOK (nodesOf r))"
    by (simp only: set_upt Ball_def atLeastLessThan_iff) simp
  also have "\<dots> = (\<forall>i r. i < sNumRoots \<and> getRoot tree i = Some r \<longrightarrow>
     getTileId r = \<lparr>level = 0, patchIdx = int i\<rparr> \<and> list_all childIdsOK (nodesOf r))"
  proof (intro iffI allI impI)
    fix i r
    assume a: "\<forall>i < sNumRoots. case getRoot tree i of None \<Rightarrow> True
      | Some r \<Rightarrow> getTileId r = \<lparr>level = 0, patchIdx = int i\<rparr> \<and> list_all childIdsOK (nodesOf r)"
      and b: "i < sNumRoots \<and> getRoot tree i = Some r"
    from a b have "case getRoot tree i of None \<Rightarrow> True
      | Some r \<Rightarrow> getTileId r = \<lparr>level = 0, patchIdx = int i\<rparr> \<and> list_all childIdsOK (nodesOf r)"
      by blast
    with b show "getTileId r = \<lparr>level = 0, patchIdx = int i\<rparr> \<and> list_all childIdsOK (nodesOf r)"
      by simp
  next
    fix i
    assume a: "\<forall>i r. i < sNumRoots \<and> getRoot tree i = Some r \<longrightarrow>
       getTileId r = \<lparr>level = 0, patchIdx = int i\<rparr> \<and> list_all childIdsOK (nodesOf r)"
      and b: "i < sNumRoots"
    show "case getRoot tree i of None \<Rightarrow> True
      | Some r \<Rightarrow> getTileId r = \<lparr>level = 0, patchIdx = int i\<rparr> \<and> list_all childIdsOK (nodesOf r)"
    proof (cases "getRoot tree i")
      case None
      then show ?thesis by simp
    next
      case (Some r)
      with a b have "getTileId r = \<lparr>level = 0, patchIdx = int i\<rparr> \<and> list_all childIdsOK (nodesOf r)"
        by blast
      with Some show ?thesis by simp
    qed
  qed
  finally show ?thesis .
qed

lemma wfTree_root:
  "wfTree tree \<Longrightarrow> i < sNumRoots \<Longrightarrow> getRoot tree i = Some r \<Longrightarrow>
   getTileId r = \<lparr>level = 0, patchIdx = int i\<rparr>"
  unfolding wfTree_iff by blast

lemma wfTree_child:
  assumes "wfTree tree" "m \<in> treeNodes tree" "getChild m i = Some c"
  shows "getTileId c = getChildTileId (getTileId m) (int i)"
proof -
  from assms(2) obtain j r where r: "j < sNumRoots" "getRoot tree j = Some r" "m \<in> subtree r"
    using treeNodes_subtree by blast
  from r(3) have "m \<in> set (nodesOf r)" by (simp add: set_nodesOf)
  moreover from assms(1) r(1,2) have "list_all childIdsOK (nodesOf r)"
    unfolding wfTree_iff by blast
  ultimately have "childIdsOK m"
    by (simp add: list_all_iff)
  with assms(3) show ?thesis by (simp add: childIdsOK_iff)
qed

lemma treeNodes_cases:
  assumes "wfTree tree" "m \<in> treeNodes tree"
  shows "(\<exists>i < sNumRoots. getRoot tree i = Some m \<and> getTileId m = \<lparr>level = 0, patchIdx = int i\<rparr>) \<or>
         (\<exists>p \<in> treeNodes tree. \<exists>i < 4. getChild p i = Some m \<and>
            getTileId m = getChildTileId (getTileId p) (int i))"
  using assms(2)
proof (cases rule: treeNodes.cases)
  case (base i)
  with assms(1) show ?thesis using wfTree_root by blast
next
  case (step p i)
  with assms(1) show ?thesis using wfTree_child by blast
qed

lemma level_nonneg:
  assumes "wfTree tree"
  shows "m \<in> treeNodes tree \<Longrightarrow> 0 \<le> level (getTileId m)"
proof (induction rule: treeNodes.induct)
  case (base i r)
  then show ?case using wfTree_root [OF assms, of i r] by simp
next
  case (step m i c)
  then show ?case using wfTree_child [OF assms, of m i c] by (simp add: getChildTileId_def)
qed

lemma childId_inj:
  assumes "getChildTileId t (int i) = getChildTileId t' (int j)" "i < 4" "j < 4"
  shows "t = t' \<and> i = j"
proof -
  from assms(1) have l: "level t = level t'" and p: "4 * patchIdx t + int i = 4 * patchIdx t' + int j"
    by (simp_all add: getChildTileId_def)
  from p assms(2,3) have "patchIdx t = patchIdx t'" "i = j" by presburger+
  with l show ?thesis by simp
qed

lemma treeNodes_unique:
  assumes wf: "wfTree tree"
  shows "m \<in> treeNodes tree \<Longrightarrow> n \<in> treeNodes tree \<Longrightarrow> getTileId m = getTileId n \<Longrightarrow> m = n"
proof (induction arbitrary: n rule: treeNodes.induct)
  case (base i r)
  from treeNodes_cases [OF wf base.prems(1)] show ?case
  proof (elim disjE exE bexE conjE)
    fix j assume "j < sNumRoots" "getRoot tree j = Some n" "getTileId n = \<lparr>level = 0, patchIdx = int j\<rparr>"
    with base wfTree_root [OF wf base.hyps] show ?thesis by simp
  next
    fix p j assume p: "p \<in> treeNodes tree" "getTileId n = getChildTileId (getTileId p) (int j)"
    with base wfTree_root [OF wf base.hyps] level_nonneg [OF wf p(1)]
    show ?thesis by (simp add: getChildTileId_def)
  qed
next
  case (step m i c)
  have c: "getTileId c = getChildTileId (getTileId m) (int i)"
    using wfTree_child [OF wf step.hyps(1,3)] .
  from treeNodes_cases [OF wf step.prems(1)] show ?case
  proof (elim disjE exE bexE conjE)
    fix j assume "j < sNumRoots" "getRoot tree j = Some n" "getTileId n = \<lparr>level = 0, patchIdx = int j\<rparr>"
    with c step.prems(2) level_nonneg [OF wf step.hyps(1)]
    show ?thesis by (simp add: getChildTileId_def)
  next
    fix p j assume p: "p \<in> treeNodes tree" "j < 4" "getChild p j = Some n"
      "getTileId n = getChildTileId (getTileId p) (int j)"
    with c step.prems(2) have "getChildTileId (getTileId m) (int i) = getChildTileId (getTileId p) (int j)"
      by simp
    from childId_inj [OF this step.hyps(2) p(2)] have "getTileId m = getTileId p" "i = j" by simp_all
    with step.IH [OF p(1)] have "m = p" by simp
    with \<open>i = j\<close> step.hyps(3) p(3) show ?thesis by simp
  qed
qed

lemma missing_child_absent:
  assumes wf: "wfTree tree" and n: "inTree tree n" and i: "i < 4" and none: "getChild n i = None"
  shows "\<not> hasNode tree (getChildTileId (getTileId n) (int i))"
proof
  assume "hasNode tree (getChildTileId (getTileId n) (int i))"
  then obtain m where m: "m \<in> treeNodes tree" "getTileId m = getChildTileId (getTileId n) (int i)"
    by (auto simp: hasNode_iff)
  from n have n': "n \<in> treeNodes tree" by (simp add: inTree_iff)
  from treeNodes_cases [OF wf m(1)] show False
  proof (elim disjE exE bexE conjE)
    fix j assume "getTileId m = \<lparr>level = 0, patchIdx = int j\<rparr>"
    with m(2) level_nonneg [OF wf n'] show False by (simp add: getChildTileId_def)
  next
    fix p j assume p: "p \<in> treeNodes tree" "j < 4" "getChild p j = Some m"
      "getTileId m = getChildTileId (getTileId p) (int j)"
    with m(2) have "getChildTileId (getTileId n) (int i) = getChildTileId (getTileId p) (int j)" by simp
    from childId_inj [OF this i p(2)] have "getTileId n = getTileId p" "i = j" by simp_all
    with treeNodes_unique [OF wf n' p(1)] have "n = p" by simp
    with \<open>i = j\<close> none p(3) show False by simp
  qed
qed

lemma missing_root_absent:
  assumes wf: "wfTree tree" and i: "i < sNumRoots" and none: "getRoot tree i = None"
  shows "\<not> hasNode tree \<lparr>level = 0, patchIdx = int i\<rparr>"
proof
  assume "hasNode tree \<lparr>level = 0, patchIdx = int i\<rparr>"
  then obtain m where m: "m \<in> treeNodes tree" "getTileId m = \<lparr>level = 0, patchIdx = int i\<rparr>"
    by (auto simp: hasNode_iff)
  from treeNodes_cases [OF wf m(1)] show False
  proof (elim disjE exE bexE conjE)
    fix j assume "j < sNumRoots" "getRoot tree j = Some m" "getTileId m = \<lparr>level = 0, patchIdx = int j\<rparr>"
    with m(2) none show False by simp
  next
    fix p j assume p: "p \<in> treeNodes tree" "getTileId m = getChildTileId (getTileId p) (int j)"
    with m(2) level_nonneg [OF wf p(1)] show False by (simp add: getChildTileId_def)
  qed
qed

lemma inTree_root: "i < sNumRoots \<Longrightarrow> getRoot tree i = Some r \<Longrightarrow> inTree tree r"
  by (simp add: inTree_iff treeNodes.base)

lemma inTree_child: "inTree tree n \<Longrightarrow> getChild n i = Some c \<Longrightarrow> inTree tree c"
  using treeNodes.step [of n tree i c] by (simp add: inTree_iff getChild_childList)

lemma all_Channel: "(\<forall>ch. P ch) = (P DEM \<and> P IMG)"
proof
  assume "\<forall>ch. P ch"
  then show "P DEM \<and> P IMG" by simp
next
  assume a: "P DEM \<and> P IMG"
  show "\<forall>ch. P ch"
  proof
    fix ch show "P ch" using a by (cases ch) simp_all
  qed
qed

lemma loadsOK_iff:
  "loadsOK v = (\<forall>ch. \<forall>t \<in> set (mLoad ch v). requestable (mTree ch v) (mMaxLevel (mParams v)) t)"
  unfolding all_Channel by (simp add: loadsOK_def list_all_iff)

lemma static_skeleton: "skeleton v' = skeleton v \<Longrightarrow> static v' = static v"
  by (simp add: skeleton_def)

lemma static_fields:
  "static v' = static v \<Longrightarrow> mTree ch v' = mTree ch v"
  "static v' = static v \<Longrightarrow> mTreeDEM v' = mTreeDEM v"
  "static v' = static v \<Longrightarrow> mTreeIMG v' = mTreeIMG v"
  "static v' = static v \<Longrightarrow> mParams v' = mParams v"
proof -
  assume a: "static v' = static v"
  then show "mTreeDEM v' = mTreeDEM v" "mTreeIMG v' = mTreeIMG v" "mParams v' = mParams v"
    by (simp_all add: static_def)
  then show "mTree ch v' = mTree ch v" by (cases ch) simp_all
qed

lemma wfTrees_static: "static v' = static v \<Longrightarrow> wfTrees v' = wfTrees v"
  by (simp add: wfTrees_def static_def)

lemma getLODState_skeleton: "skeleton v' = skeleton v \<Longrightarrow> getLODState v' lvl = getLODState v lvl"
proof -
  assume a: "skeleton v' = skeleton v"
  then have "map (\<lambda>state. (mNodeDEM state, mNodeIMG state)) (mStack v') =
      map (\<lambda>state. (mNodeDEM state, mNodeIMG state)) (mStack v)"
    by (simp add: skeleton_def)
  then have "length (mStack v') = length (mStack v)"
    by (rule map_eq_imp_length_eq)
  moreover from a have "mStackTop v' = mStackTop v" by (simp add: skeleton_def)
  ultimately show ?thesis by (simp add: getLODState_def)
qed

lemma getLODState_less: "getLODState v lvl = Inr k \<Longrightarrow> k < length (mStack v)"
  unfolding getLODState_def Let_def by (simp split: if_splits)

lemma nodes_skeleton:
  assumes "skeleton v' = skeleton v" "k < length (mStack v)"
  shows "mNodeDEM (mStack v' ! k) = mNodeDEM (mStack v ! k)"
    and "mNodeIMG (mStack v' ! k) = mNodeIMG (mStack v ! k)"
proof -
  define f where "f = (\<lambda>state :: LODState. (mNodeDEM state, mNodeIMG state))"
  from assms(1) have m: "map f (mStack v') = map f (mStack v)" by (simp add: skeleton_def f_def)
  then have len: "length (mStack v') = length (mStack v)" by (rule map_eq_imp_length_eq)
  have "map f (mStack v') ! k = f (mStack v' ! k)"
    using assms(2) len by (intro nth_map) simp
  moreover have "map f (mStack v) ! k = f (mStack v ! k)"
    using assms(2) by (intro nth_map)
  ultimately have "f (mStack v' ! k) = f (mStack v ! k)"
    using m by simp
  then show "mNodeDEM (mStack v' ! k) = mNodeDEM (mStack v ! k)"
    and "mNodeIMG (mStack v' ! k) = mNodeIMG (mStack v ! k)" by (simp_all add: f_def)
qed

lemma topOK_skeleton: "skeleton v' = skeleton v \<Longrightarrow> topOK v' = topOK v"
proof -
  assume a: "skeleton v' = skeleton v"
  note g = getLODState_skeleton [OF a, of "- 1"]
  note t = static_fields(2,3) [OF static_skeleton [OF a]]
  show ?thesis
  proof (cases "getLODState v (- 1)")
    case (Inl e)
    then show ?thesis by (simp add: topOK_def g)
  next
    case (Inr k)
    from nodes_skeleton [OF a getLODState_less [OF Inr]] Inr show ?thesis
      by (simp add: topOK_def g t)
  qed
qed

lemma loadsOK_static:
  "static v' = static v \<Longrightarrow> mLoadDEM v' = mLoadDEM v \<Longrightarrow> mLoadIMG v' = mLoadIMG v \<Longrightarrow>
   loadsOK v' = loadsOK v"
  by (simp add: loadsOK_def static_def)

lemma map_update_same: "f y = f (xs ! k) \<Longrightarrow> map f (xs[k := y]) = map f xs"
  by (induction xs arbitrary: k) (auto split: nat.splits)

lemma skeleton_writeTreeMgr [simp]: "skeleton (writeTreeMgr ch m v) = skeleton v"
  by (cases ch) (simp_all add: skeleton_def static_def)

lemma skeleton_pushLoad [simp]: "skeleton (pushLoad ch t v) = skeleton v"
  by (cases ch) (simp_all add: skeleton_def static_def)

lemma stampNode_safe:
  assumes "stampNode ch n v = Inr v'"
  shows "skeleton v' = skeleton v \<and> mLoad c v' = mLoad c v"
  using assms
  by (auto simp: stampNode_def writeRd_def bindE_def split: option.splits)

lemma addLoadLoop_safe:
  "addLoadLoop ch n is v = Inr v' \<Longrightarrow>
   skeleton v' = skeleton v \<and>
   mLoad c v' = mLoad c v @ (if c = ch then missingChildIds n is else [])"
proof (induction "is" arbitrary: v)
  case Nil
  then show ?case by (simp add: missingChildIds_def)
next
  case (Cons i rest)
  show ?case
  proof (cases "getChild n i")
    case None
    with Cons.prems
    have "addLoadLoop ch n rest (pushLoad ch (getChildTileId (getTileId n) (int i)) v) = Inr v'"
      by simp
    from Cons.IH [OF this] None show ?thesis
      by (simp add: missingChildIds_def)
  next
    case (Some child)
    with Cons.prems obtain v1 where v1: "stampNode ch child v = Inr v1"
      "addLoadLoop ch n rest v1 = Inr v'"
      by (cases "stampNode ch child v") (simp_all add: bindE_def)
    from Cons.IH [OF v1(2)] stampNode_safe [OF v1(1), of c] Some show ?thesis
      by (simp add: missingChildIds_def)
  qed
qed

lemma missingChildIds_requestable:
  assumes "wfTree tree" "inTree tree n" "getLevel n < maxLevel"
    and "t \<in> set (missingChildIds n childIndices)"
  shows "requestable (Some tree) maxLevel t"
proof -
  from assms(4) obtain i where i0: "i \<in> set childIndices" and i: "getChild n i = None"
    "t = getChildTileId (getTileId n) (int i)"
    by (auto simp: missingChildIds_def)
  from i0 have "i < 4" by (auto simp: childIndices_def)
  note i = this i
  from missing_child_absent [OF assms(1,2) i(1,2)] i(3) assms(3) show ?thesis
    by (simp add: requestable_def getChildTileId_def getLevel_def)
qed

lemma wfTrees_channel: "wfTrees v \<Longrightarrow> mTree ch v = Some tree \<Longrightarrow> wfTree tree"
  by (cases ch) (simp_all add: wfTrees_def)

lemma addLoadChildren_safe:
  assumes run: "addLoadChildren ch node v = Inr v'"
    and node: "nodeOK (mTree ch v) node" and wf: "wfTrees v" and ok: "loadsOK v"
  shows "skeleton v' = skeleton v \<and> loadsOK v'"
proof (cases "\<exists>n. node = Some n \<and> getLevel n < mMaxLevel (mParams v)")
  case False
  with run have "v' = v" by (auto simp: addLoadChildren_def split: option.splits if_splits)
  with ok show ?thesis by simp
next
  case True
  then obtain n where n: "node = Some n" "getLevel n < mMaxLevel (mParams v)" by blast
  with run have loop: "addLoadLoop ch n childIndices v = Inr v'"
    by (simp add: addLoadChildren_def)
  from node n obtain tree where tree: "mTree ch v = Some tree" "inTree tree n"
    by (auto simp: nodeOK_def split: option.splits)
  have sk: "skeleton v' = skeleton v"
    using addLoadLoop_safe [OF loop, of ch] by simp
  have st: "static v' = static v" by (rule static_skeleton [OF sk])
  have new: "\<forall>t \<in> set (missingChildIds n childIndices).
      requestable (mTree ch v) (mMaxLevel (mParams v)) t"
    using missingChildIds_requestable [OF wfTrees_channel [OF wf tree(1)] tree(2) n(2)] tree(1)
    by simp
  have "loadsOK v'"
    unfolding loadsOK_iff
  proof (intro allI ballI)
    fix c t assume t: "t \<in> set (mLoad c v')"
    from addLoadLoop_safe [OF loop, of c]
    have l: "mLoad c v' = mLoad c v @ (if c = ch then missingChildIds n childIndices else [])"
      by simp
    from t l consider "t \<in> set (mLoad c v)" | "c = ch" "t \<in> set (missingChildIds n childIndices)"
      by (auto split: if_splits)
    then show "requestable (mTree c v') (mMaxLevel (mParams v')) t"
    proof cases
      case 1
      with ok show ?thesis
        unfolding loadsOK_iff static_fields(1) [OF st] static_fields(4) [OF st] by blast
    next
      case 2
      with new show ?thesis
        unfolding static_fields(1) [OF st] static_fields(4) [OF st] by blast
    qed
  qed
  with sk show ?thesis by simp
qed

lemma drawLevel_safe:
  assumes "drawLevel v = Inr v'"
  shows "skeleton v' = skeleton v \<and> mLoadDEM v' = mLoadDEM v \<and> mLoadIMG v' = mLoadIMG v"
proof -
  from assms obtain k v1 where
    a: "(case mTreeMgrDEM v of
              None \<Rightarrow> Inr v
            | Some mgr \<Rightarrow>
                if mNodeDEM (mStack v ! k) = None then Inl AssertionFailed
                else (case mRdDEM (mStack v ! k) of
                        None \<Rightarrow> Inl AssertionFailed
                      | Some rd \<Rightarrow>
                          bindE (writeRd (addFlag eRender) rd mgr) (\<lambda>mgr'.
                            Inr (v\<lparr>mTreeMgrDEM := Some mgr',
                                   mRenderDEM := mRenderDEM v @ [rd]\<rparr>)))) = Inr v1"
    and b: "(case mTreeMgrIMG v1 of
          None \<Rightarrow> Inr v1
        | Some mgr \<Rightarrow>
            if mNodeIMG (mStack v1 ! k) = None then Inl AssertionFailed
            else (case mRdIMG (mStack v1 ! k) of
                    None \<Rightarrow> Inl AssertionFailed
                  | Some rd \<Rightarrow> Inr (v1\<lparr>mRenderIMG := mRenderIMG v1 @ [rd]\<rparr>))) = Inr v'"
    unfolding drawLevel_def bindE_def by (auto split: sum.splits)
  from a have 1: "skeleton v1 = skeleton v \<and> mLoadDEM v1 = mLoadDEM v \<and> mLoadIMG v1 = mLoadIMG v"
    by (auto simp: bindE_def writeRd_def skeleton_def static_def split: option.splits if_splits)
  from b have 2: "skeleton v' = skeleton v1 \<and> mLoadDEM v' = mLoadDEM v1 \<and> mLoadIMG v' = mLoadIMG v1"
    by (auto simp: skeleton_def static_def split: option.splits if_splits)
  from 1 2 show ?thesis by simp
qed

lemma visitInv_skeleton:
  assumes "skeleton v' = skeleton v" "loadsOK v'" "visitInv v"
  shows "visitInv v'"
  using assms(2,3) topOK_skeleton [OF assms(1)] wfTrees_static [OF static_skeleton [OF assms(1)]]
  by (simp add: visitInv_def)

lemma visitInv_frame:
  assumes "skeleton v' = skeleton v" "mLoadDEM v' = mLoadDEM v" "mLoadIMG v' = mLoadIMG v" "visitInv v"
  shows "visitInv v'"
  using assms(4) topOK_skeleton [OF assms(1)] wfTrees_static [OF static_skeleton [OF assms(1)]]
    loadsOK_static [OF static_skeleton [OF assms(1)] assms(2,3)]
  by (simp add: visitInv_def)

lemma visitInv_node:
  assumes "visitInv v" "getLODState v (- 1) = Inr k"
  shows "nodeOK (mTree ch v) (mNode ch (mStack v ! k))"
  using assms by (cases ch) (simp_all add: visitInv_def topOK_def)

lemma addLoadChildren_inv:
  assumes "addLoadChildren ch (mNode ch (mStack v ! k)) v = Inr v'"
    and "visitInv v" "getLODState v (- 1) = Inr k"
  shows "skeleton v' = skeleton v \<and> visitInv v'"
  using addLoadChildren_safe [OF assms(1) visitInv_node [OF assms(2,3)]] assms(2)
    visitInv_skeleton [of v' v]
  by (simp add: visitInv_def)

lemma drawLevel_inv:
  assumes "drawLevel v = Inr v'" "visitInv v"
  shows "skeleton v' = skeleton v \<and> visitInv v'"
  using drawLevel_safe [OF assms(1)] assms(2) visitInv_frame [of v' v] by simp

lemma bindE_InrE:
  assumes "bindE m f = Inr y"
  obtains x where "m = Inr x" "f x = Inr y"
  using assms by (cases m) (simp_all add: bindE_def)

lemma handleRefine_inv:
  assumes run: "handleRefine tileId v = Inr (b, v')" and vi: "visitInv v"
  shows "skeleton v' = skeleton v \<and> visitInv v'"
proof -
  define both where "both = (mTreeMgrDEM v \<noteq> None \<and> mTreeMgrIMG v \<noteq> None)"
  define dem where "dem = (mTreeMgrDEM v \<noteq> None \<and> mTreeMgrIMG v = None)"
  from run obtain k cD cI where k: "getLODState v (- 1) = Inr k"
    and body: "(if both
       then
         bindE (if \<not> cD
                then addLoadChildrenDEM (mNodeDEM (mStack v ! k)) v else Inr v) (\<lambda>v1.
         bindE (if \<not> cI
                then addLoadChildrenIMG (mNodeIMG (mStack v1 ! k)) v1 else Inr v1) (\<lambda>v2.
           if cD \<and> cI then Inr (True, v2)
           else bindE (drawLevel v2) (\<lambda>v3. Inr (False, v3))))
       else if dem
       then
         (if cD then Inr (True, v)
          else bindE (addLoadChildrenDEM (mNodeDEM (mStack v ! k)) v) (\<lambda>v1.
               bindE (drawLevel v1) (\<lambda>v2. Inr (False, v2))))
       else Inr (False, v)) = Inr (b, v')"
    unfolding handleRefine_def both_def dem_def by (elim bindE_InrE) blast
  have load: "skeleton w' = skeleton v \<and> visitInv w'"
    if "addLoadChildren ch (mNode ch (mStack w ! k)) w = Inr w'" "skeleton w = skeleton v" "visitInv w"
    for ch w w'
  proof -
    from k have "getLODState w (- 1) = Inr k"
      by (simp only: getLODState_skeleton [OF that(2)])
    from addLoadChildren_inv [OF that(1,3) this] that(2) show ?thesis by simp
  qed
  have draw: "skeleton w' = skeleton v \<and> visitInv w'"
    if "drawLevel w = Inr w'" "skeleton w = skeleton v" "visitInv w" for w w'
    using drawLevel_inv [OF that(1,3)] that(2) by simp
  consider (1) both | (2) "\<not> both" dem | (3) "\<not> both" "\<not> dem"
    by blast
  then show ?thesis
  proof cases
    case 1
    with body have "bindE (if \<not> cD
                then addLoadChildrenDEM (mNodeDEM (mStack v ! k)) v else Inr v) (\<lambda>v1.
         bindE (if \<not> cI
                then addLoadChildrenIMG (mNodeIMG (mStack v1 ! k)) v1 else Inr v1) (\<lambda>v2.
           if cD \<and> cI then Inr (True, v2)
           else bindE (drawLevel v2) (\<lambda>v3. Inr (False, v3)))) = Inr (b, v')"
      by simp
    then obtain v1 v2 where
      s1: "(if \<not> cD then addLoadChildrenDEM (mNodeDEM (mStack v ! k)) v else Inr v) = Inr v1"
      and s2: "(if \<not> cI then addLoadChildrenIMG (mNodeIMG (mStack v1 ! k)) v1 else Inr v1) = Inr v2"
      and s3: "(if cD \<and> cI then Inr (True, v2)
           else bindE (drawLevel v2) (\<lambda>v3. Inr (False, v3))) = Inr (b, v')"
      by (elim bindE_InrE) blast
    have i1: "skeleton v1 = skeleton v \<and> visitInv v1"
    proof (cases cD)
      case True
      with s1 vi show ?thesis by simp
    next
      case False
      with s1 have "addLoadChildren DEM (mNode DEM (mStack v ! k)) v = Inr v1"
        by (simp add: addLoadChildrenDEM_def)
      from load [OF this _ vi] show ?thesis by simp
    qed
    have i2: "skeleton v2 = skeleton v \<and> visitInv v2"
    proof (cases cI)
      case True
      with s2 i1 show ?thesis by simp
    next
      case False
      with s2 have "addLoadChildren IMG (mNode IMG (mStack v1 ! k)) v1 = Inr v2"
        by (simp add: addLoadChildrenIMG_def)
      from load [OF this] i1 show ?thesis by simp
    qed
    show ?thesis
    proof (cases "cD \<and> cI")
      case True
      with s3 i2 show ?thesis by simp
    next
      case False
      with s3 have "bindE (drawLevel v2) (\<lambda>v3. Inr (False, v3)) = Inr (b, v')" by simp
      then have "drawLevel v2 = Inr v'"
        by (elim bindE_InrE) simp
      from draw [OF this] i2 show ?thesis by simp
    qed
  next
    case 2
    show ?thesis
    proof (cases cD)
      case True
      with body 2 vi show ?thesis by simp
    next
      case False
      with body 2 have "bindE (addLoadChildrenDEM (mNodeDEM (mStack v ! k)) v) (\<lambda>v1.
               bindE (drawLevel v1) (\<lambda>v2. Inr (False, v2))) = Inr (b, v')"
        by simp
      then obtain v1 where
        s1: "addLoadChildrenDEM (mNodeDEM (mStack v ! k)) v = Inr v1"
        and s2: "drawLevel v1 = Inr v'"
        by (elim bindE_InrE) simp
      from s1 have "addLoadChildren DEM (mNode DEM (mStack v ! k)) v = Inr v1"
        by (simp add: addLoadChildrenDEM_def)
      from load [OF this _ vi] have i1: "skeleton v1 = skeleton v \<and> visitInv v1" by simp
      from draw [OF s2] i1 show ?thesis by simp
    qed
  next
    case 3
    with body vi show ?thesis by simp
  qed
qed

lemma fetchRd_safe:
  assumes "fetchRd ch k inherited v = Inr v'"
  shows "skeleton v' = skeleton v \<and> mLoadDEM v' = mLoadDEM v \<and> mLoadIMG v' = mLoadIMG v"
proof -
  have upd: "skeleton (w\<lparr>mStack := (mStack w)[k := assignRd ch r (mStack w ! k)]\<rparr>) = skeleton w"
    for w :: Visitor and r
    by (cases ch) (simp_all add: skeleton_def static_def map_update_same)
  show ?thesis
  proof (cases "\<exists>node. mNode ch (mStack v ! k) = Some node \<and> mTreeMgr ch v \<noteq> None")
    case True
    then obtain node where n: "mNode ch (mStack v ! k) = Some node" "mTreeMgr ch v \<noteq> None"
      by blast
    with assms obtain v1 where v1: "stampNode ch node v = Inr v1"
      and v': "v' = v1\<lparr>mStack := (mStack v1)[k := assignRd ch (Some (getTileId node)) (mStack v1 ! k)]\<rparr>"
      by (auto simp: fetchRd_def elim!: bindE_InrE)
    from stampNode_safe [OF v1, of DEM] stampNode_safe [OF v1, of IMG] upd [of v1] v'
    show ?thesis by simp
  next
    case False
    with assms have "v' = v\<lparr>mStack := (mStack v)[k := assignRd ch inherited (mStack v ! k)]\<rparr>"
      by (auto simp: fetchRd_def split: option.splits if_splits)
    with upd [of v] show ?thesis by simp
  qed
qed

lemma fetchRd_inv:
  assumes "fetchRd ch k inherited v = Inr v'" "visitInv v"
  shows "skeleton v' = skeleton v \<and> visitInv v'"
  using fetchRd_safe [OF assms(1)] assms(2) visitInv_frame [of v' v] by simp

lemma visitNode_inv:
  assumes run: "visitNode tileId v = Inr (b, v')" and vi: "visitInv v"
  shows "skeleton v' = skeleton v \<and> visitInv v'"
proof -
  from run obtain visible where
    body: "(if visible
       then bindE (testNeedRefine tileId v) (\<lambda>needRefine.
              if needRefine then handleRefine tileId v
              else bindE (drawLevel v) (\<lambda>v1. Inr (False, v1)))
       else Inr (False, v)) = Inr (b, v')"
    unfolding visitNode_def by (elim bindE_InrE) blast
  show ?thesis
  proof (cases visible)
    case False
    with body vi show ?thesis by simp
  next
    case True
    with body have "bindE (testNeedRefine tileId v) (\<lambda>needRefine.
              if needRefine then handleRefine tileId v
              else bindE (drawLevel v) (\<lambda>v1. Inr (False, v1))) = Inr (b, v')"
      by simp
    then obtain needRefine where
      r: "(if needRefine then handleRefine tileId v
              else bindE (drawLevel v) (\<lambda>v1. Inr (False, v1))) = Inr (b, v')"
      by (elim bindE_InrE) blast
    show ?thesis
    proof (cases needRefine)
      case True
      with r have "handleRefine tileId v = Inr (b, v')" by simp
      from handleRefine_inv [OF this vi] show ?thesis .
    next
      case False
      with r have "bindE (drawLevel v) (\<lambda>v1. Inr (False, v1)) = Inr (b, v')" by simp
      then have "drawLevel v = Inr v'" by (elim bindE_InrE) simp
      from drawLevel_inv [OF this vi] show ?thesis .
    qed
  qed
qed

lemma preVisitRoot_inv:
  assumes run: "preVisitRoot tileId v = Inr (b, v')" and vi: "visitInv v"
  shows "skeleton v' = skeleton v \<and> visitInv v'"
proof -
  from run obtain k v1 v2 where "fetchRd DEM k None v = Inr v1" "fetchRd IMG k None v1 = Inr v2"
    "visitNode tileId v2 = Inr (b, v')"
    unfolding preVisitRoot_def by (elim bindE_InrE) blast
  with fetchRd_inv [of DEM k None v v1] fetchRd_inv [of IMG k None v1 v2]
    visitNode_inv [of tileId v2 b v'] vi
  show ?thesis by simp
qed

lemma preVisit_inv:
  assumes run: "preVisit tileId v = Inr (b, v')" and vi: "visitInv v"
  shows "skeleton v' = skeleton v \<and> visitInv v'"
proof -
  from run obtain k kP v1 v2 where "fetchRd DEM k (mRdDEM (mStack v ! kP)) v = Inr v1"
    "fetchRd IMG k (mRdIMG (mStack v1 ! kP)) v1 = Inr v2"
    "visitNode tileId v2 = Inr (b, v')"
    unfolding preVisit_def by (elim bindE_InrE) blast
  with fetchRd_inv [of DEM k _ v v1] fetchRd_inv [of IMG k _ v1 v2]
    visitNode_inv [of tileId v2 b v'] vi
  show ?thesis by simp
qed

lemma nodeOK_child: "nodeOK tree node \<Longrightarrow> nodeOK tree (childOf node i)"
  by (auto simp: nodeOK_def childOf_def inTree_child split: option.splits)

lemma nodeOK_root: "i < sNumRoots \<Longrightarrow> nodeOK tree (rootOf tree i)"
  by (auto simp: nodeOK_def rootOf_def inTree_root split: option.splits)

lemma setStateNodes_inv:
  assumes run: "setStateNodes nodeDEM nodeIMG v = Inr v1"
    and nodes: "nodeOK (mTreeDEM v) nodeDEM" "nodeOK (mTreeIMG v) nodeIMG"
    and wf: "wfTrees v" and ok: "loadsOK v"
  shows "static v1 = static v \<and> visitInv v1"
proof -
  from run obtain k where k: "getLODState v (- 1) = Inr k"
    and "Inr (v\<lparr>mStack := (mStack v)[k := (mStack v ! k)\<lparr>mNodeDEM := nodeDEM, mNodeIMG := nodeIMG\<rparr>]\<rparr>) =
      (Inr v1 :: error + Visitor)"
    unfolding setStateNodes_def by (elim bindE_InrE)
  then have v1: "v1 = v\<lparr>mStack := (mStack v)[k := (mStack v ! k)\<lparr>mNodeDEM := nodeDEM, mNodeIMG := nodeIMG\<rparr>]\<rparr>"
    by simp
  have st: "static v1 = static v" by (simp add: v1 static_def)
  have lo: "mLoadDEM v1 = mLoadDEM v" "mLoadIMG v1 = mLoadIMG v" by (simp_all add: v1)
  have "getLODState v1 (- 1) = getLODState v (- 1)"
    by (rule getLODState_cong) (simp_all add: v1)
  with k have k1: "getLODState v1 (- 1) = Inr k"
    by simp
  have "mStack v1 ! k = (mStack v ! k)\<lparr>mNodeDEM := nodeDEM, mNodeIMG := nodeIMG\<rparr>"
    using getLODState_less [OF k] by (simp add: v1)
  with nodes k1 have "topOK v1"
    by (simp add: topOK_def v1)
  with wf ok wfTrees_static [OF st] loadsOK_static [OF st lo] st show ?thesis
    by (simp add: visitInv_def)
qed

lemma visitChild_safe:
  assumes IH: "\<And>cd ci tid w w'. descend cd ci tid w = Inr w' \<Longrightarrow>
      nodeOK (mTreeDEM w) cd \<Longrightarrow> nodeOK (mTreeIMG w) ci \<Longrightarrow> wfTrees w \<Longrightarrow> loadsOK w \<Longrightarrow>
      static w' = static w \<and> loadsOK w'"
    and run: "visitChild descend nodeDEM nodeIMG tileId i v = Inr v'"
    and nodes: "nodeOK (mTreeDEM v) nodeDEM" "nodeOK (mTreeIMG v) nodeIMG"
    and wf: "wfTrees v" and ok: "loadsOK v"
  shows "static v' = static v \<and> loadsOK v'"
proof -
  let ?cd = "childOf nodeDEM i" and ?ci = "childOf nodeIMG i"
  from run obtain v1 rv where s1: "setStateNodes ?cd ?ci v = Inr v1"
    and s2: "preVisit (getChildTileId tileId (int i)) v1 = Inr rv"
    and s3: "(if fst rv then descend ?cd ?ci (getChildTileId tileId (int i)) (snd rv)
              else Inr (snd rv)) = Inr v'"
    unfolding visitChild_def Let_def by (elim bindE_InrE) blast
  from setStateNodes_inv [OF s1 nodeOK_child [OF nodes(1)] nodeOK_child [OF nodes(2)] wf ok]
  have i1: "static v1 = static v" "visitInv v1" by simp_all
  from s2 have "preVisit (getChildTileId tileId (int i)) v1 = Inr (fst rv, snd rv)" by simp
  from preVisit_inv [OF this i1(2)]
  have i2: "skeleton (snd rv) = skeleton v1" "visitInv (snd rv)" by simp_all
  have st2: "static (snd rv) = static v"
    using static_skeleton [OF i2(1)] i1(1) by simp
  show ?thesis
  proof (cases "fst rv")
    case False
    with s3 st2 i2(2) show ?thesis by (auto simp: visitInv_def)
  next
    case True
    with s3 have d: "descend ?cd ?ci (getChildTileId tileId (int i)) (snd rv) = Inr v'" by simp
    have "nodeOK (mTreeDEM (snd rv)) ?cd" "nodeOK (mTreeIMG (snd rv)) ?ci"
      using nodeOK_child [OF nodes(1), of i] nodeOK_child [OF nodes(2), of i]
      by (simp_all add: static_fields(2,3) [OF st2])
    from IH [OF d this] i2(2) st2 show ?thesis
      by (simp add: visitInv_def)
  qed
qed

lemma pushState_safe:
  assumes "pushState v = Inr v0"
  shows "static v0 = static v \<and> mLoadDEM v0 = mLoadDEM v \<and> mLoadIMG v0 = mLoadIMG v"
  using assms by (auto simp: pushState_def Let_def static_def split: if_splits)

lemma popState_safe:
  "static (popState v) = static v \<and> mLoadDEM (popState v) = mLoadDEM v \<and>
   mLoadIMG (popState v) = mLoadIMG v"
  by (simp add: popState_def static_def)

lemma frame_safe:
  assumes "static v' = static v \<and> mLoadDEM v' = mLoadDEM v \<and> mLoadIMG v' = mLoadIMG v"
  shows "wfTrees v' = wfTrees v" "loadsOK v' = loadsOK v"
    "nodeOK (mTreeDEM v') n = nodeOK (mTreeDEM v) n" "nodeOK (mTreeIMG v') n = nodeOK (mTreeIMG v) n"
  using assms wfTrees_static [of v' v] loadsOK_static [of v' v] static_fields(2,3) [of v' v]
  by simp_all

lemma visitLevel_safe:
  "visitLevel depth nodeDEM nodeIMG tileId v = Inr v' \<Longrightarrow>
   nodeOK (mTreeDEM v) nodeDEM \<Longrightarrow> nodeOK (mTreeIMG v) nodeIMG \<Longrightarrow> wfTrees v \<Longrightarrow> loadsOK v \<Longrightarrow>
   static v' = static v \<and> loadsOK v'"
proof (induction depth arbitrary: nodeDEM nodeIMG tileId v v')
  case 0
  then show ?case by simp
next
  case (Suc depth)
  from Suc.prems(1) obtain v0 v1 v2 v3 v4 where p: "pushState v = Inr v0"
    and c0: "visitChild (visitLevel depth) nodeDEM nodeIMG tileId 0 v0 = Inr v1"
    and c1: "visitChild (visitLevel depth) nodeDEM nodeIMG tileId 1 v1 = Inr v2"
    and c2: "visitChild (visitLevel depth) nodeDEM nodeIMG tileId 2 v2 = Inr v3"
    and c3: "visitChild (visitLevel depth) nodeDEM nodeIMG tileId 3 v3 = Inr v4"
    and v': "v' = popState v4"
    unfolding visitLevel.simps by (elim bindE_InrE) simp
  note f0 = frame_safe [OF pushState_safe [OF p]]
  have child: "static w' = static w \<and> loadsOK w'"
    if "visitChild (visitLevel depth) nodeDEM nodeIMG tileId i w = Inr w'"
      "static w = static v" "loadsOK w" for i w w'
  proof -
    have "nodeOK (mTreeDEM w) nodeDEM" "nodeOK (mTreeIMG w) nodeIMG" "wfTrees w"
      using Suc.prems(2,3,4) static_fields(2,3) [OF that(2)] wfTrees_static [OF that(2)]
      by simp_all
    from visitChild_safe [OF Suc.IH that(1) this that(3)] show ?thesis by simp
  qed
  have s0: "static v0 = static v" "loadsOK v0"
    using pushState_safe [OF p] f0(2) Suc.prems(5) by simp_all
  from child [OF c0 s0] s0 have s1: "static v1 = static v" "loadsOK v1" by simp_all
  from child [OF c1 s1] s1 have s2: "static v2 = static v" "loadsOK v2" by simp_all
  from child [OF c2 s2] s2 have s3: "static v3 = static v" "loadsOK v3" by simp_all
  from child [OF c3 s3] s3 have s4: "static v4 = static v" "loadsOK v4" by simp_all
  from s4 popState_safe [of v4] frame_safe(2) [OF popState_safe [of v4]] show ?case
    by (simp add: v')
qed

lemma visitRoot_safe:
  assumes run: "visitRoot i v = Inr v'" and i: "i < sNumRoots"
    and wf: "wfTrees v" and ok: "loadsOK v"
  shows "static v' = static v \<and> loadsOK v'"
proof -
  let ?rd = "rootOf (mTreeDEM v) i" and ?ri = "rootOf (mTreeIMG v) i"
  let ?t = "\<lparr>level = 0, patchIdx = int i\<rparr>"
  from run obtain v0 v1 rv v3 where p: "pushState v = Inr v0"
    and s1: "setStateNodes ?rd ?ri v0 = Inr v1"
    and s2: "preVisitRoot ?t v1 = Inr rv"
    and s3: "(if fst rv then visitLevel sMaxStackDepth ?rd ?ri ?t (snd rv) else Inr (snd rv)) = Inr v3"
    and v': "v' = popState v3"
    unfolding visitRoot_def Let_def by (elim bindE_InrE) simp
  note f0 = frame_safe [OF pushState_safe [OF p]]
  have st0: "static v0 = static v" using pushState_safe [OF p] by simp
  have n0: "nodeOK (mTreeDEM v0) ?rd" "nodeOK (mTreeIMG v0) ?ri"
    using nodeOK_root [OF i, of "mTreeDEM v"] nodeOK_root [OF i, of "mTreeIMG v"]
    by (simp_all add: f0)
  from setStateNodes_inv [OF s1 n0] wf ok f0(1,2)
  have i1: "static v1 = static v0" "visitInv v1" by simp_all
  from s2 have "preVisitRoot ?t v1 = Inr (fst rv, snd rv)" by simp
  from preVisitRoot_inv [OF this i1(2)]
  have i2: "skeleton (snd rv) = skeleton v1" "visitInv (snd rv)" by simp_all
  have st2: "static (snd rv) = static v"
    using static_skeleton [OF i2(1)] i1(1) st0 by simp
  have s3': "static v3 = static v \<and> loadsOK v3"
  proof (cases "fst rv")
    case False
    with s3 st2 i2(2) show ?thesis by (auto simp: visitInv_def)
  next
    case True
    with s3 have d: "visitLevel sMaxStackDepth ?rd ?ri ?t (snd rv) = Inr v3" by simp
    have "nodeOK (mTreeDEM (snd rv)) ?rd" "nodeOK (mTreeIMG (snd rv)) ?ri"
      using nodeOK_root [OF i, of "mTreeDEM v"] nodeOK_root [OF i, of "mTreeIMG v"]
      by (simp_all add: static_fields(2,3) [OF st2])
    from visitLevel_safe [OF d this] i2(2) st2 show ?thesis
      by (simp add: visitInv_def)
  qed
  with popState_safe [of v3] frame_safe(2) [OF popState_safe [of v3]] show ?thesis
    by (simp add: v')
qed

lemma visitRoots_safe:
  "visitRoots is v = Inr v' \<Longrightarrow> \<forall>i \<in> set is. i < sNumRoots \<Longrightarrow> wfTrees v \<Longrightarrow> loadsOK v \<Longrightarrow>
   static v' = static v \<and> loadsOK v'"
proof (induction "is" arbitrary: v)
  case Nil
  then show ?case by simp
next
  case (Cons i rest)
  from Cons.prems(1) obtain v1 where r: "visitRoot i v = Inr v1" and rs: "visitRoots rest v1 = Inr v'"
    unfolding visitRoots.simps by (elim bindE_InrE)
  from Cons.prems(2) have i: "i < sNumRoots" by simp
  from visitRoot_safe [OF r i Cons.prems(3,4)] have s1: "static v1 = static v" "loadsOK v1"
    by simp_all
  from Cons.IH [OF rs] Cons.prems(2,3) s1 wfTrees_static [OF s1(1)] show ?case
    by simp
qed

lemma preTraverse_safe:
  assumes "wfTrees v"
  shows "static (snd (preTraverse ext v)) = static v \<and> loadsOK (snd (preTraverse ext v))"
proof -
  let ?v1 = "snd (preTraverse ext v)"
  have fr: "mTree ch ?v1 = mTree ch v \<and> mParams ?v1 = mParams v" for ch
    by (simp add: preTraverse_def rootsLoop_frame [where ch = ch] Let_def split: prod.splits)
         (cases ch; simp)
  from fr [of DEM] fr [of IMG] have st: "static ?v1 = static v"
    by (simp add: static_def)
  have "requestable (mTree ch v) (mMaxLevel (mParams v)) t"
    if "t \<in> set (missingRoots (mTree ch v) [0..<12])" for ch t
  proof -
    from that obtain tree where tree: "mTree ch v = Some tree"
      by (cases "mTree ch v") (simp_all add: missingRoots_def)
    with that have "t \<in> (\<lambda>i. \<lparr>level = 0, patchIdx = int i\<rparr>) ` {i. i < 12 \<and> getRoot tree i = None}"
      by (simp add: missingRoots_def image_def Bex_def conj_commute)
    then obtain i where i: "i < 12" "getRoot tree i = None" "t = \<lparr>level = 0, patchIdx = int i\<rparr>"
      by blast
    from missing_root_absent [OF wfTrees_channel [OF assms tree], of i] i tree show ?thesis
      by (simp add: requestable_def sNumRoots_def)
  qed
  then have "loadsOK ?v1"
    unfolding loadsOK_iff using preTraverse_lists [of _ ext v] fr by simp
  with st show ?thesis by simp
qed

lemma visit_safe:
  assumes "visit ext v = Inr v'" and "wfTrees v"
  shows "mTreeDEM v' = mTreeDEM v \<and> mTreeIMG v' = mTreeIMG v \<and> mParams v' = mParams v \<and>
         (\<forall>tileId \<in> set (mLoadDEM v'). requestable (mTreeDEM v') (mMaxLevel (mParams v')) tileId) \<and>
         (\<forall>tileId \<in> set (mLoadIMG v'). requestable (mTreeIMG v') (mMaxLevel (mParams v')) tileId)"
proof -
  let ?v1 = "snd (preTraverse ext v)"
  from preTraverse_safe [OF assms(2), of ext]
  have s1: "static ?v1 = static v" "loadsOK ?v1" by simp_all
  have "static v' = static v \<and> loadsOK v'"
  proof (cases "fst (preTraverse ext v)")
    case False
    with assms(1) have "v' = ?v1" by (simp add: visit_def split: prod.splits)
    with s1 show ?thesis by simp
  next
    case True
    with assms(1) have "visitRoots [0..<sNumRoots] ?v1 = Inr v'"
      by (simp add: visit_def split: prod.splits)
    from visitRoots_safe [OF this] s1 assms(2) wfTrees_static [OF s1(1)] show ?thesis
      by simp
  qed
  then have st: "static v' = static v" and ok: "loadsOK v'" by simp_all
  from ok have "(\<forall>tileId \<in> set (mLoadDEM v'). requestable (mTreeDEM v') (mMaxLevel (mParams v')) tileId) \<and>
         (\<forall>tileId \<in> set (mLoadIMG v'). requestable (mTreeIMG v') (mMaxLevel (mParams v')) tileId)"
    by (simp only: loadsOK_def list_all_iff)
  with static_fields(2,3,4) [OF st] show ?thesis
    by (simp only: simp_thms)
qed

lemma upt12: "[0..<12] = [0, 1, 2, 3, 4, 5, 6, 7, 8, 9, 10, 11]"
  by (simp add: upt_rec [of _ "numeral n" for n] upt_rec [of 0])

lemma empty_trees_visit:
  assumes "mTreeDEM v = Some (\<lambda>i. None)"
  shows "visit ext v = Inr (snd (preTraverse ext v))"
    and "mLoadDEM (snd (preTraverse ext v)) = map (\<lambda>i. \<lparr>level = 0, patchIdx = int i\<rparr>) [0..<12]"
proof -
  from assms have m: "missingRoots (mTreeDEM v) [0..<12] = map (\<lambda>i. \<lparr>level = 0, patchIdx = int i\<rparr>) [0..<12]"
    by (simp only: missingRoots_empty)
  with preTraverse_lists [of DEM ext v]
  show l: "mLoadDEM (snd (preTraverse ext v)) = map (\<lambda>i. \<lparr>level = 0, patchIdx = int i\<rparr>) [0..<12]"
    by simp
  from m have "missingRoots (mTreeDEM v) [0..<12] \<noteq> []"
    by (simp add: upt12)
  with preTraverse_lists [of DEM ext v] have "\<not> fst (preTraverse ext v)" by simp
  then show "visit ext v = Inr (snd (preTraverse ext v))"
    by (cases "preTraverse ext v") (simp add: visit_def)
qed

lemma partial_refine:
  "\<exists>v'. handleRefine \<lparr>level = 0, patchIdx = 0\<rparr>
           (atRoot 0 (idleVisitor (levelParams 1) (Some partialMgr) (Some partialMgr))) = Inr (False, v') \<and>
         mLoadDEM v' = [\<lparr>level = 1, patchIdx = 1\<rparr>, \<lparr>level = 1, patchIdx = 2\<rparr>, \<lparr>level = 1, patchIdx = 3\<rparr>] \<and>
         mLoadIMG v' = [\<lparr>level = 1, patchIdx = 1\<rparr>, \<lparr>level = 1, patchIdx = 2\<rparr>, \<lparr>level = 1, patchIdx = 3\<rparr>]"
proof -
  let ?v = "atRoot 0 (idleVisitor (levelParams 1) (Some partialMgr) (Some partialMgr))"
  let ?n = "TileNode \<lparr>level = 0, patchIdx = 0\<rparr> (TileFloat 0)
      (Some (leafNode \<lparr>level = 1, patchIdx = 0\<rparr>)) None None None"
  let ?t = "\<lparr>level = 0, patchIdx = 0\<rparr>"
  let ?v2 = "loadStep IMG ?n partialMgr (loadStep DEM ?n partialMgr ?v)"
  have pre: "getLODState ?v (- 1) = Inr 0" "mTreeMgrDEM ?v = Some partialMgr" "mTreeMgrIMG ?v = Some partialMgr"
    "mNodeDEM (mStack ?v ! 0) = Some ?n" "mNodeIMG (mStack ?v ! 0) = Some ?n"
    "mRdDEM (mStack ?v ! 0) = Some ?t" "mRdIMG (mStack ?v ! 0) = Some ?t"
    "mRData partialMgr ?t \<noteq> None"
    "\<forall>c \<in> set (presentChildren ?n childIndices). findRData partialMgr c \<noteq> None"
    by (simp_all add: partial_facts partial_root partial_children)
  have run: "handleRefine ?t ?v = bindE (drawLevel ?v2) (\<lambda>v3. Inr (False, v3))"
    using handleRefine_steps(1) [OF pre(1-8) pre(9) pre(9), of ?t]
    by (simp add: partial_children)
  obtain mgrD' d' where draw: "drawLevel ?v2 =
      Inr (?v2\<lparr>mTreeMgrDEM := Some (mgrD'\<lparr>mRData := (mRData mgrD')(?t \<mapsto> addFlag eRender d')\<rparr>),
                mRenderDEM := mRenderDEM ?v2 @ [?t], mRenderIMG := mRenderIMG ?v2 @ [?t]\<rparr>)"
    using handleRefine_steps(2) [OF pre(1-8) pre(9) pre(9)]
    by (auto simp: partial_children)
  have loads: "mLoadDEM ?v2 = missingChildIds ?n childIndices" "mLoadIMG ?v2 = missingChildIds ?n childIndices"
    by (simp_all add: partial_facts partial_children)
  show ?thesis
    unfolding run draw by (simp add: bindE_def partial_facts partial_children)
qed

lemma partial_inv:
  "topOK (atRoot 0 (idleVisitor (levelParams 1) (Some partialMgr) (Some partialMgr)))"
  "wfTrees (atRoot 0 (idleVisitor (levelParams 1) (Some partialMgr) (Some partialMgr)))"
  "loadsOK (atRoot 0 (idleVisitor (levelParams 1) (Some partialMgr) (Some partialMgr)))"
proof -
  let ?v = "atRoot 0 (idleVisitor (levelParams 1) (Some partialMgr) (Some partialMgr))"
  have trees: "mTreeDEM ?v = Some partialTree" "mTreeIMG ?v = Some partialTree"
    by (simp_all add: atRoot_def idleVisitor_def partialMgr_def)
  have "inTree partialTree (the (partialTree 0))"
    by (rule inTree_root [of 0]) (simp_all add: sNumRoots_def getRoot_def partialTree_def)
  then show "topOK ?v"
    by (simp add: topOK_def partial_facts trees nodeOK_def partial_root)
  have "wfTree partialTree"
    by (simp add: wfTree_def sNumRoots_def upt12 getRoot_def partialTree_def leafNode_def
        childIdsOK_def childIndices_def getChild_def getChildTileId_def)
  then show "wfTrees ?v"
    by (simp add: wfTrees_def trees)
  show "loadsOK ?v"
    by (simp add: loadsOK_def partial_facts)
qed

text \<open>
  C4. Over trees whose ids say where their nodes are, every tile id in the load list of a
  channel names no node of the tree of the channel, and its level is at most the maximum
  level, or zero where the maximum level is negative. Pre-traversal fills the lists with
  such ids (the level-0 ids of the missing roots, whatever the maximum level is);
  \<^verbatim>\<open>handleRefine\<close>, called on a state whose nodes are nodes of the trees, adds such ids
  only (the ids of the missing children, and only below a node whose level is under the
  maximum level); and after a traversal that returns the lists hold such ids only. The
  trees and the parameters stay as they are.
\<close>

theorem load_lists_requestable:
  "(wfTrees v \<longrightarrow>
      wfTrees (snd (preTraverse ext v)) \<and> loadsOK (snd (preTraverse ext v))) \<and>
   (topOK v \<and> wfTrees v \<and> loadsOK v \<and> handleRefine tileId v = Inr (b, v1) \<longrightarrow>
      static v1 = static v \<and> loadsOK v1) \<and>
   (wfTrees v \<and> visit ext v = Inr v' \<longrightarrow>
      mTreeDEM v' = mTreeDEM v \<and> mTreeIMG v' = mTreeIMG v \<and> mParams v' = mParams v \<and>
      (\<forall>t \<in> set (mLoadDEM v'). requestable (mTreeDEM v') (mMaxLevel (mParams v')) t) \<and>
      (\<forall>t \<in> set (mLoadIMG v'). requestable (mTreeIMG v') (mMaxLevel (mParams v')) t))"
proof (intro conjI impI)
  assume wf: "wfTrees v"
  from preTraverse_safe [OF wf, of ext]
  show "wfTrees (snd (preTraverse ext v))" "loadsOK (snd (preTraverse ext v))"
    using wf wfTrees_static [of "snd (preTraverse ext v)" v] by simp_all
next
  assume a: "topOK v \<and> wfTrees v \<and> loadsOK v \<and> handleRefine tileId v = Inr (b, v1)"
  then have "visitInv v" by (simp add: visitInv_def)
  from handleRefine_inv [OF _ this, of tileId b v1] a
  show "static v1 = static v" "loadsOK v1"
    using static_skeleton [of v1 v] by (simp_all add: visitInv_def)
next
  assume a: "wfTrees v \<and> visit ext v = Inr v'"
  then have "visit ext v = Inr v'" "wfTrees v" by simp_all
  from visit_safe [OF this]
  show "mTreeDEM v' = mTreeDEM v" "mTreeIMG v' = mTreeIMG v" "mParams v' = mParams v"
    "\<forall>t \<in> set (mLoadDEM v'). requestable (mTreeDEM v') (mMaxLevel (mParams v')) t"
    "\<forall>t \<in> set (mLoadIMG v'). requestable (mTreeIMG v') (mMaxLevel (mParams v')) t"
    by blast+
qed

theorem load_lists_requestable_witness:
  "(\<exists>v'. handleRefine \<lparr>level = 0, patchIdx = 0\<rparr>
           (atRoot 0 (idleVisitor (levelParams 1) (Some partialMgr) (Some partialMgr))) = Inr (False, v') \<and>
         mLoadDEM v' = [\<lparr>level = 1, patchIdx = 1\<rparr>, \<lparr>level = 1, patchIdx = 2\<rparr>, \<lparr>level = 1, patchIdx = 3\<rparr>] \<and>
         mTreeDEM v' = Some partialTree \<and> mMaxLevel (mParams v') = 1 \<and> loadsOK v') \<and>
   topOK (atRoot 0 (idleVisitor (levelParams 1) (Some partialMgr) (Some partialMgr))) \<and>
   wfTrees (atRoot 0 (idleVisitor (levelParams 1) (Some partialMgr) (Some partialMgr))) \<and>
   loadsOK (atRoot 0 (idleVisitor (levelParams 1) (Some partialMgr) (Some partialMgr))) \<and>
   \<not> hasNode partialTree \<lparr>level = 1, patchIdx = 1\<rparr> \<and>
   hasNode partialTree \<lparr>level = 1, patchIdx = 0\<rparr> \<and>
   visit columnExt (idleVisitor unitParams (Some emptyMgr) (Some emptyMgr)) =
     Inr (snd (preTraverse columnExt (idleVisitor unitParams (Some emptyMgr) (Some emptyMgr)))) \<and>
   wfTrees (idleVisitor unitParams (Some emptyMgr) (Some emptyMgr)) \<and>
   \<lparr>level = 0, patchIdx = 3\<rparr> \<in>
     set (mLoadDEM (snd (preTraverse columnExt (idleVisitor unitParams (Some emptyMgr) (Some emptyMgr))))) \<and>
   requestable (Some (\<lambda>i. None)) 1 \<lparr>level = 0, patchIdx = 3\<rparr>"
proof -
  let ?p = "atRoot 0 (idleVisitor (levelParams 1) (Some partialMgr) (Some partialMgr))"
  let ?t = "\<lparr>level = 0, patchIdx = 0\<rparr>"
  from partial_refine obtain p' where p': "handleRefine ?t ?p = Inr (False, p')"
    "mLoadDEM p' = [\<lparr>level = 1, patchIdx = 1\<rparr>, \<lparr>level = 1, patchIdx = 2\<rparr>, \<lparr>level = 1, patchIdx = 3\<rparr>]"
    by blast
  from load_lists_requestable [of ?p columnExt ?t False p'] partial_inv p'(1)
  have sp: "static p' = static ?p" "loadsOK p'" by simp_all
  have tp: "mTreeDEM p' = Some partialTree" "mMaxLevel (mParams p') = 1"
    using static_fields(2,4) [OF sp(1)]
    by (simp_all add: atRoot_def idleVisitor_def partialMgr_def)
  from sp(2) p'(2) tp have "requestable (Some partialTree) 1 \<lparr>level = 1, patchIdx = 1\<rparr>"
    by (simp add: loadsOK_def)
  then have absent: "\<not> hasNode partialTree \<lparr>level = 1, patchIdx = 1\<rparr>"
    by (simp add: requestable_def)
  have present: "hasNode partialTree \<lparr>level = 1, patchIdx = 0\<rparr>"
    by (simp add: hasNode_def sNumRoots_def upt12 getRoot_def partialTree_def leafNode_def)
  let ?v = "idleVisitor unitParams (Some emptyMgr) (Some emptyMgr)"
  let ?v' = "snd (preTraverse columnExt ?v)"
  have t: "mTreeDEM ?v = Some (\<lambda>i. None)" "mParams ?v = unitParams"
    by (simp_all add: idleVisitor_def emptyMgr_def)
  note run = empty_trees_visit [OF t(1), of columnExt]
  have wf: "wfTrees ?v"
    by (simp add: wfTrees_def wfTree_def idleVisitor_def emptyMgr_def getRoot_def list_all_iff)
  have mem: "\<lparr>level = 0, patchIdx = 3\<rparr> \<in> set (mLoadDEM ?v')"
    by (simp add: run(2) upt12)
  from load_lists_requestable [of ?v columnExt ?t False ?v ?v'] run(1) wf mem t
  have "requestable (Some (\<lambda>i. None)) 1 \<lparr>level = 0, patchIdx = 3\<rparr>"
    by (auto simp: unitParams_def)
  with p' sp tp partial_inv absent present run(1) wf mem show ?thesis
    by blast
qed

text \<open>
  With a maximum level of \<open>-1\<close> and both channels on empty trees the load lists hold the
  twelve level-0 ids, whose level is above the maximum level.
\<close>

theorem load_lists_counterexample:
  "visit columnExt (idleVisitor (levelParams (- 1)) (Some emptyMgr) (Some emptyMgr)) =
     Inr (snd (preTraverse columnExt (idleVisitor (levelParams (- 1)) (Some emptyMgr) (Some emptyMgr)))) \<and>
   mLoadDEM (snd (preTraverse columnExt (idleVisitor (levelParams (- 1)) (Some emptyMgr) (Some emptyMgr)))) =
     [\<lparr>level = 0, patchIdx = 0\<rparr>, \<lparr>level = 0, patchIdx = 1\<rparr>, \<lparr>level = 0, patchIdx = 2\<rparr>,
      \<lparr>level = 0, patchIdx = 3\<rparr>, \<lparr>level = 0, patchIdx = 4\<rparr>, \<lparr>level = 0, patchIdx = 5\<rparr>,
      \<lparr>level = 0, patchIdx = 6\<rparr>, \<lparr>level = 0, patchIdx = 7\<rparr>, \<lparr>level = 0, patchIdx = 8\<rparr>,
      \<lparr>level = 0, patchIdx = 9\<rparr>, \<lparr>level = 0, patchIdx = 10\<rparr>, \<lparr>level = 0, patchIdx = 11\<rparr>] \<and>
   mMaxLevel (mParams (snd (preTraverse columnExt
     (idleVisitor (levelParams (- 1)) (Some emptyMgr) (Some emptyMgr))))) = - 1 \<and>
   \<not> level \<lparr>level = 0, patchIdx = 0\<rparr> \<le> - 1"
proof -
  let ?v = "idleVisitor (levelParams (- 1)) (Some emptyMgr) (Some emptyMgr)"
  have t: "mTreeDEM ?v = Some (\<lambda>i. None)"
    by (simp add: idleVisitor_def emptyMgr_def)
  note run = empty_trees_visit [OF t, of columnExt]
  have "mParams (snd (preTraverse columnExt ?v)) = mParams ?v"
    by (simp add: preTraverse_def rootsLoop_frame [where ch = DEM] Let_def split: prod.splits)
  then have "mMaxLevel (mParams (snd (preTraverse columnExt ?v))) = - 1"
    by (simp add: idleVisitor_def)
  with run show ?thesis
    by (simp add: upt12)
qed

subsection \<open>The render lists\<close>

lemma leafNode_sel [simp]:
  "getTileId (leafNode t) = t" "getTile (leafNode t) = TileFloat 0"
  "getChild (leafNode t) i = None"
  by (simp_all add: leafNode_def getChild_def)






















end
